theory Spec2Isabelle
  imports Main "HOL-Library.Sublist" "HOL-Library.List_Lexorder" "HOL-Library.Char_ord"
begin

section \<open>Strings\<close>

text \<open>
  Python strings are modelled as \<open>string\<close> (lists of 8-bit characters). \<open>str.lower\<close> is
  modelled on the ASCII letters; every other character is left as it is. \<open>str.strip\<close>
  removes the ASCII white space of Python (codes 9 to 13, 28 to 32) at both ends.
\<close>

definition lower_char :: "char \<Rightarrow> char" where
  "lower_char c =
     (case map_of (zip ''ABCDEFGHIJKLMNOPQRSTUVWXYZ'' ''abcdefghijklmnopqrstuvwxyz'') c of
        Some d \<Rightarrow> d
      | None \<Rightarrow> c)"

definition lower :: "string \<Rightarrow> string" where
  "lower s = map lower_char s"

definition isspace :: "char \<Rightarrow> bool" where
  "isspace c =
     (c \<in> set [CHR 0x09, CHR 0x0A, CHR 0x0B, CHR 0x0C, CHR 0x0D,
                CHR 0x1C, CHR 0x1D, CHR 0x1E, CHR 0x1F, CHR '' ''])"

definition strip :: "string \<Rightarrow> string" where
  "strip s = rev (dropWhile isspace (rev (dropWhile isspace s)))"

text \<open>\<open>s.startswith(p)\<close>, by recursion on the two strings.\<close>

fun startswith :: "string \<Rightarrow> string \<Rightarrow> bool" where
  "startswith s [] = True"
| "startswith [] (p # ps) = False"
| "startswith (c # cs) (p # ps) = (c = p \<and> startswith cs ps)"

section \<open>Program state\<close>

text \<open>
  The module's global variables. The two Python sets \<open>EXCLUDED_FOLDERS_EXACT_LOWER\<close> and
  \<open>EXCLUDED_FOLDERS_PREFIX_LOWER\<close> are lists without duplicates, in the (unspecified)
  order in which Python iterates over the set. The widgets are left out.
\<close>

datatype calc_mode = Selective | Full

record app_state =
  source_dir_var :: string
  dest_dir_var :: string
  append_timestamp_var :: bool
  excluded_exact_list :: "string list"
  excluded_prefix_list :: "string list"
  EXCLUDED_FOLDERS_EXACT_LOWER :: "string list"
  EXCLUDED_FOLDERS_PREFIX_LOWER :: "string list"
  files_to_copy_list :: "(string \<times> string) list"
  total_files_count :: nat
  last_calculation_mode :: "calc_mode option"

definition initial_state :: app_state where
  "initial_state =
     \<lparr> source_dir_var = [], dest_dir_var = [], append_timestamp_var = False,
       excluded_exact_list = [], excluded_prefix_list = [],
       EXCLUDED_FOLDERS_EXACT_LOWER = [], EXCLUDED_FOLDERS_PREFIX_LOWER = [],
       files_to_copy_list = [], total_files_count = 0, last_calculation_mode = None \<rparr>"

section \<open>Exclusion rules\<close>

text \<open>
  \<open>is_excluded\<close>: the membership test on the exact set, then the loop over the prefix set
  with its early return.
\<close>

fun prefix_loop :: "string list \<Rightarrow> string \<Rightarrow> bool" where
  "prefix_loop [] lower_name = False"
| "prefix_loop (p # ps) lower_name =
     (if startswith lower_name p then True else prefix_loop ps lower_name)"

definition is_excluded :: "app_state \<Rightarrow> string \<Rightarrow> bool" where
  "is_excluded st folder_name =
     (let lower_name = lower folder_name in
      if lower_name \<in> set (EXCLUDED_FOLDERS_EXACT_LOWER st) then True
      else prefix_loop (EXCLUDED_FOLDERS_PREFIX_LOWER st) lower_name)"

text \<open>The set comprehension \<open>{f.lower() for f in xs}\<close>.\<close>

definition lower_set :: "string list \<Rightarrow> string list" where
  "lower_set xs = remdups (map lower xs)"

definition update_lower_sets :: "app_state \<Rightarrow> app_state" where
  "update_lower_sets st =
     st\<lparr> EXCLUDED_FOLDERS_EXACT_LOWER := lower_set (excluded_exact_list st),
         EXCLUDED_FOLDERS_PREFIX_LOWER := lower_set (excluded_prefix_list st) \<rparr>"

text \<open>
  The rule editor. \<open>target\<close> says which of the two global lists the widget callback was
  bound to; the editor's two list boxes are part of the editor state. \<open>add_item\<close> returns
  what it did beside the new state: the item was added, or one of the two warnings.
\<close>

datatype target = Exact | Prefix

datatype add_outcome = Added | AlreadyExists | NothingEntered

record editor_state =
  app :: app_state
  exact_listbox :: "string list"
  prefix_listbox :: "string list"

definition target_list :: "target \<Rightarrow> app_state \<Rightarrow> string list" where
  "target_list tg st = (case tg of Exact \<Rightarrow> excluded_exact_list st | Prefix \<Rightarrow> excluded_prefix_list st)"

definition set_target_list :: "target \<Rightarrow> string list \<Rightarrow> app_state \<Rightarrow> app_state" where
  "set_target_list tg xs st =
     (case tg of Exact \<Rightarrow> st\<lparr>excluded_exact_list := xs\<rparr> | Prefix \<Rightarrow> st\<lparr>excluded_prefix_list := xs\<rparr>)"

definition listbox :: "target \<Rightarrow> editor_state \<Rightarrow> string list" where
  "listbox tg ed = (case tg of Exact \<Rightarrow> exact_listbox ed | Prefix \<Rightarrow> prefix_listbox ed)"

definition set_listbox :: "target \<Rightarrow> string list \<Rightarrow> editor_state \<Rightarrow> editor_state" where
  "set_listbox tg xs ed =
     (case tg of Exact \<Rightarrow> ed\<lparr>exact_listbox := xs\<rparr> | Prefix \<Rightarrow> ed\<lparr>prefix_listbox := xs\<rparr>)"

definition show_exclusion_editor :: "app_state \<Rightarrow> editor_state" where
  "show_exclusion_editor st =
     \<lparr> app = st, exact_listbox = excluded_exact_list st, prefix_listbox = excluded_prefix_list st \<rparr>"

definition add_item :: "target \<Rightarrow> string \<Rightarrow> editor_state \<Rightarrow> editor_state \<times> add_outcome" where
  "add_item tg entry_text ed =
     (let item = strip entry_text; tgt = target_list tg (app ed) in
      if item \<noteq> [] \<and> item \<notin> set tgt then
        (let ed1 = ed\<lparr>app := set_target_list tg (tgt @ [item]) (app ed)\<rparr>;
             ed2 = set_listbox tg (listbox tg ed1 @ [item]) ed1
         in (ed2\<lparr>app := update_lower_sets (app ed2)\<rparr>, Added))
      else if item \<in> set tgt then (ed, AlreadyExists)
      else (ed, NothingEntered))"

text \<open>
  \<open>remove_selected\<close>: \<open>sel\<close> is \<open>curselection()\<close>, the selected indices in increasing order.
  Tk's \<open>get\<close> at an index outside the list box gives the empty string and its \<open>delete\<close>
  does nothing there. \<open>list.remove\<close> deletes the first occurrence.
\<close>

definition listbox_get :: "string list \<Rightarrow> nat \<Rightarrow> string" where
  "listbox_get lb i = (if i < length lb then lb ! i else [])"

definition listbox_delete :: "string list \<Rightarrow> nat \<Rightarrow> string list" where
  "listbox_delete lb i = take i lb @ drop (Suc i) lb"

fun remove_loop :: "nat list \<Rightarrow> string list \<times> string list \<Rightarrow> string list \<times> string list" where
  "remove_loop [] (lb, tgt) = (lb, tgt)"
| "remove_loop (i # is) (lb, tgt) =
     (let item_to_remove = listbox_get lb i;
          lb' = listbox_delete lb i;
          tgt' = (if item_to_remove \<in> set tgt then remove1 item_to_remove tgt else tgt)
      in remove_loop is (lb', tgt'))"

definition remove_selected :: "target \<Rightarrow> nat list \<Rightarrow> editor_state \<Rightarrow> editor_state" where
  "remove_selected tg sel ed =
     (if sel = [] then ed
      else
        (let (lb', tgt') = remove_loop (rev sel) (listbox tg ed, target_list tg (app ed));
             ed1 = set_listbox tg lb' ed;
             ed2 = ed1\<lparr>app := set_target_list tg tgt' (app ed1)\<rparr>
         in ed2\<lparr>app := update_lower_sets (app ed2)\<rparr>))"

text \<open>
  The lower-cased sets are in step with the stored lists.
\<close>

definition synced :: "app_state \<Rightarrow> bool" where
  "synced st =
     (set (EXCLUDED_FOLDERS_EXACT_LOWER st) = lower ` set (excluded_exact_list st) \<and>
      set (EXCLUDED_FOLDERS_PREFIX_LOWER st) = lower ` set (excluded_prefix_list st))"

section \<open>Exceptions and the outside world\<close>

text \<open>
  Python exceptions are values; each carries the text that \<open>str\<close> gives for it. The world
  outside the program: the directory tree found at a path (\<open>None\<close> when the path is not a
  directory), the content of the regular file at a path, and the working directory. A
  directory holds the names of its entries that are not directories and its
  subdirectories by name, in the order in which the platform lists them. Every directory
  of a tree can be listed, and none of them is a symbolic link.
\<close>

datatype exn = ValueError string | JSONDecodeError string | OSError string | OtherError string

fun str_exn :: "exn \<Rightarrow> string" where
  "str_exn (ValueError m) = m"
| "str_exn (JSONDecodeError m) = m"
| "str_exn (OSError m) = m"
| "str_exn (OtherError m) = m"

datatype tree = Dir (dir_files: "string list") (dir_subdirs: "(string \<times> tree) list")

record world =
  dir_at :: "string \<Rightarrow> tree option"
  file_at :: "string \<Rightarrow> string option"
  getcwd :: string

definition isdir :: "world \<Rightarrow> string \<Rightarrow> bool" where
  "isdir w p = (dir_at w p \<noteq> None)"

section \<open>Configuration\<close>

text \<open>
  The configuration file is absent, or reading and decoding it raises, or it decodes to
  a JSON object. Of such an object the five known keys are kept, each absent or present
  with a value of its documented type.
\<close>

record config_doc =
  cfg_source_dir :: "string option"
  cfg_dest_dir :: "string option"
  cfg_excluded_exact :: "string list option"
  cfg_excluded_prefix :: "string list option"
  cfg_append_timestamp :: "bool option"

datatype config_file = Missing | Unreadable exn | Document config_doc

definition empty_doc :: config_doc where
  "empty_doc = \<lparr> cfg_source_dir = None, cfg_dest_dir = None, cfg_excluded_exact = None,
                 cfg_excluded_prefix = None, cfg_append_timestamp = None \<rparr>"

text \<open>
  The two default sets, as the lists that \<open>list(...)\<close> makes of them (Python fixes no
  order for them).
\<close>

definition DEFAULT_EXCLUDED_FOLDERS_EXACT :: "string list" where
  "DEFAULT_EXCLUDED_FOLDERS_EXACT = [''.git'', ''node_modules'']"

definition DEFAULT_EXCLUDED_FOLDERS_PREFIX :: "string list" where
  "DEFAULT_EXCLUDED_FOLDERS_PREFIX = [''firebase-export-'']"

text \<open>The body of the \<open>try\<close> of \<open>load_config\<close>: what it leaves in \<open>config\<close>, or what it raises.\<close>

definition read_config :: "config_file \<Rightarrow> exn + config_doc" where
  "read_config cf =
     (case cf of Missing \<Rightarrow> Inr empty_doc | Unreadable e \<Rightarrow> Inl e | Document d \<Rightarrow> Inr d)"

definition dict_get :: "'a option \<Rightarrow> 'a \<Rightarrow> 'a" where
  "dict_get v dflt = (case v of None \<Rightarrow> dflt | Some x \<Rightarrow> x)"

definition load_config :: "config_file \<Rightarrow> world \<Rightarrow> app_state \<Rightarrow> app_state" where
  "load_config cf w st =
     (let config = (case read_config cf of Inl e \<Rightarrow> empty_doc | Inr d \<Rightarrow> d);
          source_dir = dict_get (cfg_source_dir config) [];
          dest_dir = dict_get (cfg_dest_dir config) [];
          st1 = (if source_dir \<noteq> [] \<and> isdir w source_dir
                 then st\<lparr>source_dir_var := source_dir\<rparr> else st);
          st2 = (if dest_dir \<noteq> [] \<and> isdir w dest_dir
                 then st1\<lparr>dest_dir_var := dest_dir\<rparr> else st1);
          st3 = st2\<lparr> excluded_exact_list :=
                       dict_get (cfg_excluded_exact config) DEFAULT_EXCLUDED_FOLDERS_EXACT,
                     excluded_prefix_list :=
                       dict_get (cfg_excluded_prefix config) DEFAULT_EXCLUDED_FOLDERS_PREFIX \<rparr>;
          st4 = st3\<lparr> EXCLUDED_FOLDERS_EXACT_LOWER := lower_set (excluded_exact_list st3),
                     EXCLUDED_FOLDERS_PREFIX_LOWER := lower_set (excluded_prefix_list st3) \<rparr>
      in st4\<lparr> append_timestamp_var := dict_get (cfg_append_timestamp config) False \<rparr>)"


text \<open>The contract of \<open>isExcluded\<close> in the words of the specification.\<close>

definition isExcluded_spec :: "string set \<Rightarrow> string set \<Rightarrow> string \<Rightarrow> bool" where
  "isExcluded_spec exactNames prefixNames n =
     (lower n \<in> lower ` exactNames \<or> (\<exists>p \<in> prefixNames. prefix (lower p) (lower n)))"

section \<open>Paths\<close>

text \<open>
  The functions of \<open>os.path\<close> that the program calls, as \<open>posixpath\<close> defines them.
\<close>

definition sep :: char where
  "sep = CHR ''/''"

definition extsep :: char where
  "extsep = CHR ''.''"

text \<open>\<open>p[:i]\<close> and \<open>p[i:]\<close> for \<open>i = p.rfind(c) + 1\<close>.\<close>

definition upto_last :: "char \<Rightarrow> string \<Rightarrow> string" where
  "upto_last c p = rev (dropWhile (\<lambda>x. x \<noteq> c) (rev p))"

definition after_last :: "char \<Rightarrow> string \<Rightarrow> string" where
  "after_last c p = rev (takeWhile (\<lambda>x. x \<noteq> c) (rev p))"

definition rstrip :: "char \<Rightarrow> string \<Rightarrow> string" where
  "rstrip c s = rev (dropWhile (\<lambda>x. x = c) (rev s))"

definition basename :: "string \<Rightarrow> string" where
  "basename p = after_last sep p"

definition dirname :: "string \<Rightarrow> string" where
  "dirname p =
     (let head = upto_last sep p in
      if head \<noteq> [] \<and> head \<noteq> replicate (length head) sep then rstrip sep head else head)"

text \<open>
  \<open>splitext\<close>: the last dot of the last segment starts the extension, unless only dots
  come before it in that segment.
\<close>

definition splitext :: "string \<Rightarrow> string \<times> string" where
  "splitext p =
     (let tail = after_last sep p in
      if extsep \<in> set tail then
        (let before_dot = butlast (upto_last extsep tail) in
         if filter (\<lambda>c. c \<noteq> extsep) before_dot \<noteq> []
         then (butlast (upto_last extsep p), extsep # after_last extsep p)
         else (p, []))
      else (p, []))"

definition join :: "string \<Rightarrow> string \<Rightarrow> string" where
  "join a b =
     (if b \<noteq> [] \<and> hd b = sep then b
      else if a = [] \<or> last a = sep then a @ b
      else a @ [sep] @ b)"

text \<open>\<open>s.split(d)\<close> and \<open>sep.join(xs)\<close>.\<close>

fun split :: "char \<Rightarrow> string \<Rightarrow> string list" where
  "split d [] = [[]]"
| "split d (c # cs) =
     (if c = d then [] # split d cs
      else (case split d cs of [] \<Rightarrow> [[c]] | x # xs \<Rightarrow> (c # x) # xs))"

fun sep_join :: "string list \<Rightarrow> string" where
  "sep_join [] = []"
| "sep_join [x] = x"
| "sep_join (x # y # ys) = x @ [sep] @ sep_join (y # ys)"

text \<open>
  The loop that \<open>commonprefix\<close> and \<open>commonpath\<close> run on the least and the greatest of
  their arguments. The least is never longer than its agreement with the greatest, so
  the index into the greatest stays in range; the last equation is not reached.
\<close>

fun common_loop :: "'a list \<Rightarrow> 'a list \<Rightarrow> 'a list" where
  "common_loop [] s2 = []"
| "common_loop (c # cs) (d # ds) = (if c \<noteq> d then [] else c # common_loop cs ds)"
| "common_loop (c # cs) [] = []"

definition py_min :: "('a::linorder) list \<Rightarrow> 'a" where
  "py_min xs = fold min (tl xs) (hd xs)"

definition py_max :: "('a::linorder) list \<Rightarrow> 'a" where
  "py_max xs = fold max (tl xs) (hd xs)"

definition commonprefix :: "string list list \<Rightarrow> string list" where
  "commonprefix m = (if m = [] then [] else common_loop (py_min m) (py_max m))"

text \<open>
  \<open>commonpath\<close> looks at a path through \<open>p[:1] == sep\<close> and through its components, the
  pieces between separators that are neither empty nor a single dot.
\<close>

definition isabs :: "string \<Rightarrow> bool" where
  "isabs p = (take 1 p = [sep])"

definition components :: "string \<Rightarrow> string list" where
  "components p = filter (\<lambda>c. c \<noteq> [] \<and> c \<noteq> ''.'') (split sep p)"

definition commonpath :: "string list \<Rightarrow> exn + string" where
  "commonpath paths =
     (if paths = [] then Inl (ValueError ''commonpath() arg is an empty sequence'')
      else
        (let isabs_set = remdups (map isabs paths) in
         if length isabs_set \<noteq> 1 then Inl (ValueError ''Can't mix absolute and relative paths'')
         else
           (let split_paths = map components paths;
                common = common_loop (py_min split_paths) (py_max split_paths)
            in Inr ((if hd isabs_set then [sep] else []) @ sep_join common))))"

fun normpath_loop :: "nat \<Rightarrow> string list \<Rightarrow> string list \<Rightarrow> string list" where
  "normpath_loop initial_slashes [] new_comps = new_comps"
| "normpath_loop initial_slashes (part # comps) new_comps =
     (if part = [] \<or> part = ''.'' then normpath_loop initial_slashes comps new_comps
      else if part \<noteq> ''..'' \<or> (initial_slashes = 0 \<and> new_comps = [])
              \<or> (new_comps \<noteq> [] \<and> last new_comps = ''..'')
      then normpath_loop initial_slashes comps (new_comps @ [part])
      else if new_comps \<noteq> [] then normpath_loop initial_slashes comps (butlast new_comps)
      else normpath_loop initial_slashes comps new_comps)"

definition normpath :: "string \<Rightarrow> string" where
  "normpath path =
     (if path = [] then ''.''
      else
        (let initial_slashes =
               (if hd path = sep
                then (if take 2 path = [sep, sep] \<and> take 3 path \<noteq> [sep, sep, sep] then 2 else 1)
                else 0);
             comps = normpath_loop initial_slashes (split sep path) [];
             path' = replicate initial_slashes sep @ sep_join comps
         in if path' = [] then ''.'' else path'))"

definition abspath :: "world \<Rightarrow> string \<Rightarrow> string" where
  "abspath w path = normpath (if take 1 path \<noteq> [sep] then join (getcwd w) path else path)"

definition relpath :: "world \<Rightarrow> string \<Rightarrow> string \<Rightarrow> exn + string" where
  "relpath w path start =
     (if path = [] then Inl (ValueError ''no path specified'')
      else
        (let start_list = filter (\<lambda>x. x \<noteq> []) (split sep (abspath w start));
             path_list = filter (\<lambda>x. x \<noteq> []) (split sep (abspath w path));
             i = length (commonprefix [start_list, path_list]);
             rel_list = replicate (length start_list - i) ''..'' @ drop i path_list
         in if rel_list = [] then Inr ''.'' else Inr (foldl join (hd rel_list) (tl rel_list))))"

section \<open>The destination folder\<close>

text \<open>
  The local time that \<open>datetime.now()\<close> returns, and \<open>strftime("%Y%m%d_%H%M%S")\<close> of it:
  the year on four digits at least, the other fields on two.
\<close>

record datetime =
  dt_year :: nat
  dt_month :: nat
  dt_day :: nat
  dt_hour :: nat
  dt_minute :: nat
  dt_second :: nat

definition digit :: "nat \<Rightarrow> char" where
  "digit d = ''0123456789'' ! d"

fun decimal :: "nat \<Rightarrow> string" where
  "decimal n = (if n < 10 then [digit n] else decimal (n div 10) @ [digit (n mod 10)])"

declare decimal.simps [simp del]

definition zero_pad :: "nat \<Rightarrow> nat \<Rightarrow> string" where
  "zero_pad width n = replicate (width - length (decimal n)) (CHR ''0'') @ decimal n"

definition strftime :: "datetime \<Rightarrow> string" where
  "strftime now =
     zero_pad 4 (dt_year now) @ zero_pad 2 (dt_month now) @ zero_pad 2 (dt_day now) @ ''_'' @
     zero_pad 2 (dt_hour now) @ zero_pad 2 (dt_minute now) @ zero_pad 2 (dt_second now)"

definition get_actual_dest_dir :: "app_state \<Rightarrow> datetime \<Rightarrow> string option" where
  "get_actual_dest_dir st now =
     (let base_dest_dir = dest_dir_var st in
      if base_dest_dir = [] then None
      else if append_timestamp_var st then
        (let timestamp = strftime now;
             (base_name, ext) = splitext (basename base_dest_dir);
             dir_name = dirname base_dest_dir;
             new_name = (if ext \<noteq> [] then base_name @ ''_'' @ timestamp @ ext
                         else base_name @ ''_'' @ timestamp)
         in Some (join dir_name new_name))
      else Some base_dest_dir)"

section \<open>Building the plan\<close>

text \<open>
  The containment test of \<open>_start_file_calculation\<close>: the two paths are equal, or the
  common path of the source alone equals the common path of source and destination. A
  \<open>ValueError\<close> of \<open>commonpath\<close> is caught and the test passes.
\<close>

definition dest_inside_source :: "string \<Rightarrow> string \<Rightarrow> bool" where
  "dest_inside_source source_dir actual_dest_dir =
     (if source_dir = actual_dest_dir then True
      else
        (case commonpath [source_dir] of
           Inl e \<Rightarrow> False
         | Inr c1 \<Rightarrow>
             (case commonpath [source_dir, actual_dest_dir] of
                Inl e \<Rightarrow> False
              | Inr c2 \<Rightarrow> c1 = c2)))"

text \<open>
  \<open>os.walk(root, topdown=True)\<close> with the caller's edit of \<open>dirs\<close>: the caller keeps the
  names that satisfy \<open>keep\<close>, and the walk descends only into the kept subdirectories,
  each in full before the next. The result is the sequence of triples that the loop
  body sees.
\<close>

fun os_walk :: "(string \<Rightarrow> bool) \<Rightarrow> string \<Rightarrow> tree \<Rightarrow> (string \<times> string list \<times> string list) list" where
  "os_walk keep root (Dir files subdirs) =
     (root, map fst (filter (\<lambda>(d, sub). keep d) subdirs), files) #
     concat (map (\<lambda>(d, sub). os_walk keep (join root d) sub)
               (filter (\<lambda>(d, sub). keep d) subdirs))"

text \<open>
  \<open>calculation_thread\<close>: the inner loop over the files of one directory, the outer loop
  over the triples of the walk, both carrying \<open>temp_file_list\<close> and \<open>count\<close>; an exception
  ends the loops.
\<close>

fun files_loop ::
  "world \<Rightarrow> string \<Rightarrow> string \<Rightarrow> string \<Rightarrow> string list \<Rightarrow> (string \<times> string) list \<times> nat
     \<Rightarrow> exn + (string \<times> string) list \<times> nat" where
  "files_loop w source_dir actual_dest_dir dirpath [] (temp_file_list, count) =
     Inr (temp_file_list, count)"
| "files_loop w source_dir actual_dest_dir dirpath (file # files) (temp_file_list, count) =
     (let source_path = join dirpath file in
      case relpath w source_path source_dir of
        Inl e \<Rightarrow> Inl e
      | Inr relative_path \<Rightarrow>
          (let dest_path = join actual_dest_dir relative_path in
           files_loop w source_dir actual_dest_dir dirpath files
             (temp_file_list @ [(source_path, dest_path)], count + 1)))"

fun walk_loop ::
  "world \<Rightarrow> string \<Rightarrow> string \<Rightarrow> (string \<times> string list \<times> string list) list
     \<Rightarrow> (string \<times> string) list \<times> nat \<Rightarrow> exn + (string \<times> string) list \<times> nat" where
  "walk_loop w source_dir actual_dest_dir [] acc = Inr acc"
| "walk_loop w source_dir actual_dest_dir ((dirpath, dirs, files) # rest) acc =
     (case files_loop w source_dir actual_dest_dir dirpath files acc of
        Inl e \<Rightarrow> Inl e
      | Inr acc' \<Rightarrow> walk_loop w source_dir actual_dest_dir rest acc')"

definition calculation_thread ::
  "world \<Rightarrow> app_state \<Rightarrow> bool \<Rightarrow> string \<Rightarrow> string \<Rightarrow> exn + (string \<times> string) list \<times> nat" where
  "calculation_thread w st ignore_exclusions source_dir actual_dest_dir =
     (case dir_at w source_dir of
        None \<Rightarrow> Inr ([], 0)
      | Some t \<Rightarrow>
          walk_loop w source_dir actual_dest_dir
            (os_walk (\<lambda>d. ignore_exclusions \<or> \<not> is_excluded st d) source_dir t) ([], 0))"

definition update_calculation_result :: "(string \<times> string) list \<Rightarrow> nat \<Rightarrow> app_state \<Rightarrow> app_state" where
  "update_calculation_result calculated_list calculated_count st =
     st\<lparr> files_to_copy_list := calculated_list, total_files_count := calculated_count \<rparr>"

definition reset_calculation :: "app_state \<Rightarrow> app_state" where
  "reset_calculation st =
     st\<lparr> files_to_copy_list := [], total_files_count := 0, last_calculation_mode := None \<rparr>"

text \<open>
  \<open>_start_file_calculation\<close> with the thread it starts and the callback that the thread
  schedules. The result is the new state, or the error shown together with the state
  left behind.
\<close>

datatype calc_error = PathsNotSelected | SourceInvalid | DestinationNested | CalculationFailed exn

definition start_file_calculation ::
  "world \<Rightarrow> datetime \<Rightarrow> bool \<Rightarrow> calc_mode \<Rightarrow> app_state \<Rightarrow> calc_error \<times> app_state + app_state" where
  "start_file_calculation w now ignore_exclusions mode st =
     (let source_dir = source_dir_var st in
      case get_actual_dest_dir st now of
        None \<Rightarrow> Inl (PathsNotSelected, st)
      | Some actual_dest_dir \<Rightarrow>
          if source_dir = [] \<or> actual_dest_dir = [] then Inl (PathsNotSelected, st)
          else if \<not> isdir w source_dir then Inl (SourceInvalid, st)
          else if dest_inside_source source_dir actual_dest_dir then Inl (DestinationNested, st)
          else
            (let st1 = st\<lparr> files_to_copy_list := [], total_files_count := 0,
                           last_calculation_mode := Some mode \<rparr>
             in case calculation_thread w st1 ignore_exclusions source_dir actual_dest_dir of
                  Inl e \<Rightarrow> Inl (CalculationFailed e, reset_calculation st1)
                | Inr (fl, c) \<Rightarrow> Inr (update_calculation_result fl c st1)))"

definition calculate_files_to_copy :: "world \<Rightarrow> datetime \<Rightarrow> app_state \<Rightarrow> calc_error \<times> app_state + app_state" where
  "calculate_files_to_copy w now st = start_file_calculation w now False Selective st"

definition calculate_files_for_full_copy :: "world \<Rightarrow> datetime \<Rightarrow> app_state \<Rightarrow> calc_error \<times> app_state + app_state" where
  "calculate_files_for_full_copy w now st = start_file_calculation w now True Full st"

text \<open>
  The files of a tree in the words of the specification: every regular file, with the
  chain of folder names that leads to it from the root.
\<close>

fun tree_files :: "tree \<Rightarrow> (string list \<times> string) list" where
  "tree_files (Dir files subdirs) =
     map (\<lambda>f. ([], f)) files @
     concat (map (\<lambda>(d, sub). map (\<lambda>(chain, f). (d # chain, f)) (tree_files sub)) subdirs)"

definition source_path_of :: "string \<Rightarrow> string list \<times> string \<Rightarrow> string" where
  "source_path_of source_dir cf = join (foldl join source_dir (fst cf)) (snd cf)"

section \<open>Copying\<close>

text \<open>
  What the copy thread schedules on the main loop, in order: \<open>update_progress\<close> with the
  copied count and the total, \<open>show_copy_complete\<close>, or \<open>show_error_and_reset\<close> with its
  message. The message is a fixed text, rendered here in English, followed by a line
  break and \<open>str\<close> of the exception.
\<close>

datatype event = UpdateProgress nat nat | ShowCopyComplete | ShowErrorAndReset string

definition copy_error_message :: "exn \<Rightarrow> string" where
  "copy_error_message e = ''Error while copying files:'' @ [CHR 0x0A] @ str_exn e"

text \<open>
  The environment decides which calls of \<open>os.makedirs\<close> and \<open>shutil.copy2\<close> raise, and
  what. A copy that does not raise reads the source file and writes its content to the
  destination path, over what was there; a source that is not a file raises. Folders
  are not part of the file store.
\<close>

record copy_env =
  makedirs_error :: "string \<Rightarrow> exn option"
  copy2_error :: "string \<Rightarrow> string \<Rightarrow> exn option"

type_synonym file_store = "string \<Rightarrow> string option"

definition shutil_copy2 :: "copy_env \<Rightarrow> file_store \<Rightarrow> string \<Rightarrow> string \<Rightarrow> exn + file_store" where
  "shutil_copy2 env files src dst =
     (case copy2_error env src dst of
        Some e \<Rightarrow> Inl e
      | None \<Rightarrow>
          (case files src of
             None \<Rightarrow> Inl (OSError ''No such file or directory'')
           | Some content \<Rightarrow> Inr (files(dst \<mapsto> content))))"

text \<open>The two calls of one iteration of the loop.\<close>

definition copy_entry :: "copy_env \<Rightarrow> file_store \<Rightarrow> string \<times> string \<Rightarrow> exn + file_store" where
  "copy_entry env files entry =
     (case entry of (src_path, dest_path) \<Rightarrow>
        (case makedirs_error env (dirname dest_path) of
           Some e \<Rightarrow> Inl e
         | None \<Rightarrow> shutil_copy2 env files src_path dest_path))"

record copy_state =
  store :: file_store
  copied_count :: nat
  events :: "event list"

text \<open>
  The loop of \<open>copy_thread\<close> over \<open>enumerate(files_to_copy_list)\<close>, from index \<open>i\<close> on. An
  exception leaves the loop with the state reached so far.
\<close>

fun copy_loop ::
  "copy_env \<Rightarrow> nat \<Rightarrow> nat \<Rightarrow> (string \<times> string) list \<Rightarrow> copy_state \<Rightarrow> exn \<times> copy_state + copy_state" where
  "copy_loop env total_count i [] cs = Inr cs"
| "copy_loop env total_count i (entry # rest) cs =
     (case copy_entry env (store cs) entry of
        Inl e \<Rightarrow> Inl (e, cs)
      | Inr files' \<Rightarrow>
          (let copied = copied_count cs + 1;
               update_interval = max 1 (total_count div 100);
               events' = (if (i + 1) mod update_interval = 0 \<or> i + 1 = total_count
                          then events cs @ [UpdateProgress copied total_count] else events cs)
           in copy_loop env total_count (i + 1) rest
                \<lparr> store = files', copied_count = copied, events = events' \<rparr>))"

definition copy_thread :: "copy_env \<Rightarrow> nat \<Rightarrow> (string \<times> string) list \<Rightarrow> file_store \<Rightarrow> copy_state" where
  "copy_thread env total_count plan files0 =
     (case copy_loop env total_count 0 plan \<lparr> store = files0, copied_count = 0, events = [] \<rparr> of
        Inr cs \<Rightarrow> cs\<lparr> events := events cs @ [ShowCopyComplete] \<rparr>
      | Inl (e, cs) \<Rightarrow> cs\<lparr> events := events cs @ [ShowErrorAndReset (copy_error_message e)] \<rparr>)"



text \<open>Copying the entries of a list in order, on the file store alone.\<close>

fun copy_files :: "copy_env \<Rightarrow> (string \<times> string) list \<Rightarrow> file_store \<Rightarrow> exn + file_store" where
  "copy_files env [] fs = Inr fs"
| "copy_files env (entry # rest) fs =
     (case copy_entry env fs entry of Inl e \<Rightarrow> Inl e | Inr fs' \<Rightarrow> copy_files env rest fs')"

text \<open>
  The test of the loop for a notification after the \<open>c\<close>-th file; the copied counts of the
  progress notifications of a run; the signals that close a run.
\<close>

definition notifies :: "nat \<Rightarrow> nat \<Rightarrow> bool" where
  "notifies total_count c = (c mod max 1 (total_count div 100) = 0 \<or> c = total_count)"


fun progress_counts :: "event list \<Rightarrow> nat list" where
  "progress_counts [] = []"
| "progress_counts (UpdateProgress c t # es) = c # progress_counts es"
| "progress_counts (e # es) = progress_counts es"

fun closing :: "event \<Rightarrow> bool" where
  "closing (UpdateProgress c t) = False"
| "closing ShowCopyComplete = True"
| "closing (ShowErrorAndReset m) = True"

text \<open>
  A name of a directory entry is not empty and holds no separator; a tree is well formed
  when all its names are such. A path with one separator at its end.
\<close>

definition wf_name :: "string \<Rightarrow> bool" where
  "wf_name n = (n \<noteq> [] \<and> sep \<notin> set n)"

fun wf_tree :: "tree \<Rightarrow> bool" where
  "wf_tree (Dir files subdirs) =
     (list_all wf_name files \<and> list_all (\<lambda>(d, sub). wf_name d \<and> wf_tree sub) subdirs)"

definition with_sep :: "string \<Rightarrow> string" where
  "with_sep p = (if last p = sep then p else p @ [sep])"

section \<open>Example inputs\<close>

text \<open>A world with no directories, and the rule editor opened after a start without a configuration file.\<close>

definition empty_world :: world where
  "empty_world = \<lparr> dir_at = (\<lambda>p. None), file_at = (\<lambda>p. None), getcwd = ''/'' \<rparr>"

definition default_editor :: editor_state where
  "default_editor = show_exclusion_editor (load_config Missing empty_world initial_state)"

text \<open>
  The editor after \<open>Foo\<close> and then \<open>foo\<close> were added to the exact list, and a configuration
  document whose two paths are no longer directories.
\<close>

definition variant_editor :: editor_state where
  "variant_editor = fst (add_item Exact ''foo'' (fst (add_item Exact ''Foo'' default_editor)))"


text \<open>The time 2024-01-02 03:04:05.\<close>

definition example_time :: datetime where
  "example_time =
     \<lparr> dt_year = 2024, dt_month = 1, dt_day = 2, dt_hour = 3, dt_minute = 4, dt_second = 5 \<rparr>"


text \<open>
  The source tree of the end-to-end scenario, with one more file, named \<open>node_modules\<close>,
  in the folder \<open>sub\<close>; a world that holds it; the state after a start without a
  configuration file and the choice of the two folders.
\<close>

definition project_tree :: tree where
  "project_tree =
     Dir [''file1.txt'']
       [(''.git'', Dir [''config''] []),
        (''node_modules'', Dir [] [(''pkg'', Dir [''index.js''] [])]),
        (''sub'', Dir [''file2.txt'', ''node_modules''] [])]"

definition project_world :: world where
  "project_world =
     \<lparr> dir_at = (\<lambda>p. if p = ''/home/u/project'' then Some project_tree else None),
       file_at = (\<lambda>p. None), getcwd = ''/home/u'' \<rparr>"

definition project_state :: app_state where
  "project_state =
     (load_config Missing project_world initial_state)
       \<lparr> source_dir_var := ''/home/u/project'', dest_dir_var := ''/backup/project'' \<rparr>"

text \<open>The source paths that the loop body forms from the triples of a walk.\<close>

definition walk_paths :: "(string \<times> string list \<times> string list) list \<Rightarrow> string list" where
  "walk_paths triples = concat (map (\<lambda>(dp, ds, fs). map (join dp) fs) triples)"


text \<open>The project state with another destination folder.\<close>

definition project_state_to :: "string \<Rightarrow> app_state" where
  "project_state_to dst = project_state\<lparr> dest_dir_var := dst \<rparr>"

text \<open>
  A plan of three entries and a file store that holds their sources; an environment in
  which nothing raises, and environments that deny writing the second or the third
  destination. A plan of 199 entries.
\<close>

definition three_plan :: "(string \<times> string) list" where
  "three_plan = [(''/s/a'', ''/d/a''), (''/s/b'', ''/d/b''), (''/s/c'', ''/d/c'')]"

definition three_files :: file_store where
  "three_files = [''/s/a'' \<mapsto> ''A'', ''/s/b'' \<mapsto> ''B'', ''/s/c'' \<mapsto> ''C'']"

definition no_errors :: copy_env where
  "no_errors = \<lparr> makedirs_error = (\<lambda>d. None), copy2_error = (\<lambda>s d. None) \<rparr>"

definition deny :: "string \<Rightarrow> copy_env" where
  "deny p = \<lparr> makedirs_error = (\<lambda>d. None),
             copy2_error = (\<lambda>s d. if d = p then Some (OSError ''Permission denied'') else None) \<rparr>"

definition long_plan :: "(string \<times> string) list" where
  "long_plan = map (\<lambda>i. (''/s/f'' @ decimal i, ''/d/f'' @ decimal i)) [0..<199]"

definition every_file :: file_store where
  "every_file = (\<lambda>p. Some ''data'')"


section \<open>Lemmas on strings and rules\<close>

lemma lower_char_idem: "lower_char (lower_char c) = lower_char c"
  by (simp add: lower_char_def)

lemma lower_idem: "lower (lower s) = lower s"
  by (simp add: lower_def lower_char_idem)

lemma startswith_prefix: "startswith s p = prefix p s"
  by (induction s p rule: startswith.induct) auto

lemma prefix_loop_iff: "prefix_loop ps n = (\<exists>p \<in> set ps. prefix p n)"
  by (induction ps) (auto simp: startswith_prefix)

lemma is_excluded_iff:
  "is_excluded st n =
     (lower n \<in> set (EXCLUDED_FOLDERS_EXACT_LOWER st) \<or>
      (\<exists>p \<in> set (EXCLUDED_FOLDERS_PREFIX_LOWER st). prefix p (lower n)))"
  by (simp add: is_excluded_def Let_def prefix_loop_iff)

lemma set_lower_set: "set (lower_set xs) = lower ` set xs"
  by (simp add: lower_set_def)

lemma synced_update_lower_sets: "synced (update_lower_sets st)"
  by (simp add: synced_def update_lower_sets_def set_lower_set)

lemma is_excluded_spec:
  "synced st \<Longrightarrow>
     is_excluded st n =
       isExcluded_spec (set (excluded_exact_list st)) (set (excluded_prefix_list st)) n"
  by (simp add: is_excluded_iff synced_def isExcluded_spec_def)

lemma is_excluded_lower: "is_excluded st (lower n) = is_excluded st n"
  by (simp add: is_excluded_iff lower_idem)

lemma add_item_stored:
  "strip v \<noteq> [] \<Longrightarrow> strip v \<in> set (target_list tg (app (fst (add_item tg v ed))))"
  by (cases tg)
    (auto simp: add_item_def Let_def target_list_def set_target_list_def set_listbox_def
      update_lower_sets_def)

lemma synced_add_item: "synced (app ed) \<Longrightarrow> synced (app (fst (add_item tg v ed)))"
  by (cases tg) (auto simp: add_item_def Let_def set_listbox_def synced_update_lower_sets)

lemma excluded_of_stored:
  "synced st \<Longrightarrow> e \<in> set (excluded_exact_list st) \<Longrightarrow> lower m = lower e \<Longrightarrow> is_excluded st m"
  by (auto simp: is_excluded_iff synced_def)

lemmas default_editor_simps =
  default_editor_def show_exclusion_editor_def load_config_def read_config_def Let_def
  empty_doc_def dict_get_def initial_state_def lower_set_def empty_world_def isdir_def
  DEFAULT_EXCLUDED_FOLDERS_EXACT_def DEFAULT_EXCLUDED_FOLDERS_PREFIX_def lower_def lower_char_def

section \<open>C2: the contract of \<open>is_excluded\<close>\<close>

text \<open>
  C2. In a state whose lower-cased sets are in step with the stored lists (every state the
  program reaches), \<open>is_excluded\<close> holds of a folder name exactly when the lower-cased
  name is an entry of the lower-cased exact set or starts with an entry of the lower-cased
  prefix set; this is the contract \<open>isExcluded_spec\<close> on the stored lists. Hence
  \<open>is_excluded\<close> gives the same answer for a name and for its lower-casing, and once a
  name has been added to the exact list, \<open>is_excluded\<close> holds of every casing of it.
\<close>

theorem is_excluded_contract:
  assumes "synced (app ed)"
  shows "is_excluded (app ed) n =
           (lower n \<in> set (EXCLUDED_FOLDERS_EXACT_LOWER (app ed)) \<or>
            (\<exists>p \<in> set (EXCLUDED_FOLDERS_PREFIX_LOWER (app ed)). prefix p (lower n)))
       \<and> is_excluded (app ed) n =
           isExcluded_spec (set (excluded_exact_list (app ed)))
             (set (excluded_prefix_list (app ed))) n
       \<and> is_excluded (app ed) (lower n) = is_excluded (app ed) n
       \<and> (strip v \<noteq> [] \<and> lower m = lower (strip v)
            \<longrightarrow> is_excluded (app (fst (add_item Exact v ed))) m)"
proof -
  have "strip v \<noteq> [] \<Longrightarrow> lower m = lower (strip v)
          \<Longrightarrow> is_excluded (app (fst (add_item Exact v ed))) m"
    using excluded_of_stored[OF synced_add_item[OF assms, of Exact v], of "strip v" m]
      add_item_stored[of v Exact ed]
    by (simp add: target_list_def)
  then show ?thesis
    using is_excluded_iff[of "app ed" n] is_excluded_spec[OF assms, of n]
      is_excluded_lower[of "app ed" n]
    by blast
qed

theorem is_excluded_contract_witness:
  "synced (app default_editor)
   \<and> is_excluded (app default_editor) ''Node_Modules''
   \<and> is_excluded (app default_editor) (lower ''Node_Modules'')
   \<and> \<not> is_excluded (app default_editor) ''BUILD''
   \<and> strip ''  Build '' \<noteq> [] \<and> lower ''BUILD'' = lower (strip ''  Build '')
   \<and> is_excluded (app (fst (add_item Exact ''  Build '' default_editor))) ''BUILD''"
proof -
  have s: "synced (app default_editor)"
    by (simp add: default_editor_simps synced_def)
  have b: "strip ''  Build '' \<noteq> [] \<and> lower ''BUILD'' = lower (strip ''  Build '')"
    by (simp add: strip_def isspace_def lower_def lower_char_def)
  have n: "\<not> is_excluded (app default_editor) ''BUILD''"
    by (simp add: default_editor_simps is_excluded_def)
  have e: "is_excluded (app default_editor) ''Node_Modules''"
    by (simp add: default_editor_simps is_excluded_def)
  from is_excluded_contract[OF s, of "''Node_Modules''" "''  Build ''" "''BUILD''"] s b n e
  show ?thesis by blast
qed

section \<open>C10: duplicates are detected by exact comparison\<close>

lemma add_item_fresh:
  "strip v \<noteq> [] \<Longrightarrow> strip v \<notin> set (target_list tg (app ed)) \<Longrightarrow>
     snd (add_item tg v ed) = Added \<and>
     target_list tg (app (fst (add_item tg v ed))) = target_list tg (app ed) @ [strip v]"
  by (cases tg)
    (auto simp: add_item_def Let_def target_list_def set_target_list_def set_listbox_def
      update_lower_sets_def)

lemma add_item_added_synced:
  "snd (add_item tg v ed) = Added \<Longrightarrow> synced (app (fst (add_item tg v ed)))"
  by (cases tg)
    (auto simp: add_item_def Let_def set_listbox_def synced_update_lower_sets split: if_splits)

lemma remove_selected_synced_sel: "sel \<noteq> [] \<Longrightarrow> synced (app (remove_selected tg sel ed))"
  by (simp add: remove_selected_def Let_def synced_update_lower_sets split: prod.splits)

lemma synced_remove_selected: "synced (app ed) \<Longrightarrow> synced (app (remove_selected tg sel ed))"
  by (cases "sel = []") (simp_all add: remove_selected_synced_sel, simp add: remove_selected_def)

lemma is_excluded_cong_sets:
  "set (EXCLUDED_FOLDERS_EXACT_LOWER a) = set (EXCLUDED_FOLDERS_EXACT_LOWER b) \<Longrightarrow>
   set (EXCLUDED_FOLDERS_PREFIX_LOWER a) = set (EXCLUDED_FOLDERS_PREFIX_LOWER b) \<Longrightarrow>
   is_excluded a n = is_excluded b n"
  by (simp add: is_excluded_iff)

lemma add_item_variant_sets:
  assumes "synced (app ed)" "e \<in> set (target_list tg (app ed))" "lower (strip v) = lower e"
  shows "set (EXCLUDED_FOLDERS_EXACT_LOWER (app (fst (add_item tg v ed)))) =
           set (EXCLUDED_FOLDERS_EXACT_LOWER (app ed))"
    and "set (EXCLUDED_FOLDERS_PREFIX_LOWER (app (fst (add_item tg v ed)))) =
           set (EXCLUDED_FOLDERS_PREFIX_LOWER (app ed))"
  using assms
  by (cases tg; auto simp: add_item_def Let_def target_list_def set_target_list_def
      set_listbox_def update_lower_sets_def synced_def set_lower_set)+

text \<open>
  C10, as the code has it. Let the stored list hold an entry \<open>e\<close>, and let \<open>v\<close> be a value
  that, once \<open>add_item\<close> has stripped its surrounding white space, is not empty, is not
  itself an element of the stored list, and has the lower-casing of \<open>e\<close>. Then
  \<open>add_item\<close> succeeds and appends the stripped value, so that the list holds both
  spellings; the lower-cased matching set already held its lower-casing, and
  \<open>is_excluded\<close> answers as before for every name. After every add and every remove the
  lower-cased sets are the lower-cased images of the stored lists: a successful add and a
  remove with a selection establish this, the others leave the state as it was.
\<close>

theorem add_item_case_variant:
  assumes "synced (app ed)"
    and "e \<in> set (target_list tg (app ed))"
    and "strip v \<noteq> []"
    and "strip v \<notin> set (target_list tg (app ed))"
    and "lower (strip v) = lower e"
  shows "snd (add_item tg v ed) = Added
       \<and> target_list tg (app (fst (add_item tg v ed))) = target_list tg (app ed) @ [strip v]
       \<and> lower (strip v) \<in> set (case tg of Exact \<Rightarrow> EXCLUDED_FOLDERS_EXACT_LOWER (app ed)
                                  | Prefix \<Rightarrow> EXCLUDED_FOLDERS_PREFIX_LOWER (app ed))
       \<and> (\<forall>n. is_excluded (app (fst (add_item tg v ed))) n = is_excluded (app ed) n)
       \<and> (\<forall>tg' w. synced (app (fst (add_item tg' w ed))))
       \<and> (\<forall>tg' sel. synced (app (remove_selected tg' sel ed)))
       \<and> (\<forall>tg' w x. snd (add_item tg' w x) = Added \<longrightarrow> synced (app (fst (add_item tg' w x))))
       \<and> (\<forall>tg' sel x. sel \<noteq> [] \<longrightarrow> synced (app (remove_selected tg' sel x)))"
proof -
  have "lower (strip v) \<in> set (case tg of Exact \<Rightarrow> EXCLUDED_FOLDERS_EXACT_LOWER (app ed)
                                  | Prefix \<Rightarrow> EXCLUDED_FOLDERS_PREFIX_LOWER (app ed))"
    using assms(1,2,5) by (cases tg) (auto simp: synced_def target_list_def)
  moreover have "\<forall>n. is_excluded (app (fst (add_item tg v ed))) n = is_excluded (app ed) n"
    using is_excluded_cong_sets[OF add_item_variant_sets[OF assms(1,2,5)]] by blast
  ultimately show ?thesis
    using add_item_fresh[OF assms(3,4)] synced_add_item[OF assms(1)]
      synced_remove_selected[OF assms(1)] add_item_added_synced remove_selected_synced_sel
    by blast
qed

theorem add_item_case_variant_witness:
  "synced (app default_editor)
   \<and> ''.git'' \<in> set (target_list Exact (app default_editor))
   \<and> strip '' .GIT '' \<noteq> []
   \<and> strip '' .GIT '' \<notin> set (target_list Exact (app default_editor))
   \<and> lower (strip '' .GIT '') = lower ''.git''
   \<and> snd (add_item Exact '' .GIT '' default_editor) = Added
   \<and> target_list Exact (app (fst (add_item Exact '' .GIT '' default_editor))) =
        [''.git'', ''node_modules'', ''.GIT'']
   \<and> (\<forall>n. is_excluded (app (fst (add_item Exact '' .GIT '' default_editor))) n =
            is_excluded (app default_editor) n)
   \<and> synced (app (fst (add_item Exact '' .GIT '' default_editor)))
   \<and> [0] \<noteq> ([] :: nat list)
   \<and> synced (app (remove_selected Exact [0] default_editor))"
proof -
  have s: "synced (app default_editor)"
    by (simp add: default_editor_simps synced_def)
  have m: "''.git'' \<in> set (target_list Exact (app default_editor))"
    by (simp add: default_editor_simps target_list_def)
  have v: "strip '' .GIT '' = ''.GIT''"
    by (simp add: strip_def isspace_def)
  have n: "strip '' .GIT '' \<noteq> []"
    by (simp add: v)
  have f: "strip '' .GIT '' \<notin> set (target_list Exact (app default_editor))"
    by (simp add: v default_editor_simps target_list_def)
  have l: "lower (strip '' .GIT '') = lower ''.git''"
    by (simp add: v lower_def lower_char_def)
  have t: "target_list Exact (app default_editor) = [''.git'', ''node_modules'']"
    by (simp add: default_editor_simps target_list_def)
  from add_item_case_variant[OF s m n f l] s m n f l show ?thesis
    by (simp add: v t)
qed

text \<open>
  The specification asks only that \<open>v\<close> differ from \<open>e\<close>. With \<open>Foo\<close> and \<open>foo\<close>
  both stored, adding \<open>foo\<close> again meets that condition for \<open>e = Foo\<close>, and is refused as
  a duplicate: nothing is appended.
\<close>

theorem add_item_case_variant_counterexample:
  "''Foo'' \<in> set (excluded_exact_list (app variant_editor))
   \<and> ''foo'' \<noteq> [] \<and> ''foo'' \<noteq> ''Foo'' \<and> lower ''foo'' = lower ''Foo''
   \<and> add_item Exact ''foo'' variant_editor = (variant_editor, AlreadyExists)
   \<and> excluded_exact_list (app (fst (add_item Exact ''foo'' variant_editor))) =
        [''.git'', ''node_modules'', ''Foo'', ''foo'']
   \<and> excluded_exact_list (app variant_editor) = [''.git'', ''node_modules'', ''Foo'', ''foo'']"
  by (simp add: variant_editor_def add_item_def default_editor_simps strip_def isspace_def
       target_list_def set_target_list_def set_listbox_def update_lower_sets_def listbox_def)

section \<open>C8: loading the configuration\<close>



section \<open>Lemmas on paths\<close>




lemma upto_last_none:
  assumes "c \<notin> set s" shows "upto_last c s = []"
proof -
  have h: "dropWhile (\<lambda>x. x \<noteq> c) (rev s) = []"
    using assms by (auto simp: dropWhile_eq_Nil_conv)
  show ?thesis unfolding upto_last_def h by simp
qed

















section \<open>C6: the destination folder\<close>


lemmas path_simps =
  sep_def extsep_def join_def dirname_def basename_def splitext_def upto_last_def after_last_def
  rstrip_def Let_def


section \<open>Lemmas on the plan\<close>

lemma files_loop_count:
  "files_loop w s a dp files (tfl, c) = Inr (tfl', c') \<Longrightarrow> c = length tfl \<Longrightarrow> c' = length tfl'"
proof (induction files arbitrary: tfl c)
  case Nil
  then show ?case by auto
next
  case (Cons f files)
  from Cons.prems(1) obtain r where
    1: "files_loop w s a dp files (tfl @ [(join dp f, join a r)], c + 1) = Inr (tfl', c')"
    by (auto simp: Let_def split: sum.splits)
  have "c + 1 = length (tfl @ [(join dp f, join a r)])" using Cons.prems(2) by simp
  from Cons.IH[OF 1 this] show ?case .
qed

lemma walk_loop_count:
  "walk_loop w s a triples (tfl, c) = Inr (tfl', c') \<Longrightarrow> c = length tfl \<Longrightarrow> c' = length tfl'"
proof (induction triples arbitrary: tfl c)
  case Nil
  then show ?case by auto
next
  case (Cons t triples)
  obtain dp ds fs where t: "t = (dp, ds, fs)" by (cases t) auto
  from Cons.prems(1) obtain tfl1 c1 where
    1: "files_loop w s a dp fs (tfl, c) = Inr (tfl1, c1)" and
    2: "walk_loop w s a triples (tfl1, c1) = Inr (tfl', c')"
    by (auto simp: t split: sum.splits)
  from files_loop_count[OF 1 Cons.prems(2)] have "c1 = length tfl1" .
  from Cons.IH[OF 2 this] show ?case .
qed

lemma calculation_thread_count:
  "calculation_thread w st ign s a = Inr (tfl, c) \<Longrightarrow> c = length tfl"
  by (auto simp: calculation_thread_def split: option.splits dest: walk_loop_count)

lemma join_nonempty: "a \<noteq> [] \<Longrightarrow> join a b \<noteq> []"
  by (simp add: join_def)

lemma relpath_Inr: "path \<noteq> [] \<Longrightarrow> \<exists>r. relpath w path start = Inr r"
  by (simp add: relpath_def Let_def)

lemma files_loop_result:
  "dp \<noteq> [] \<Longrightarrow>
     \<exists>es. files_loop w s a dp files (tfl, c) = Inr (tfl @ es, c + length files) \<and>
          map fst es = map (join dp) files"
proof (induction files arbitrary: tfl c)
  case Nil
  then show ?case by simp
next
  case (Cons f files)
  from relpath_Inr[OF join_nonempty[OF Cons.prems], of w f s] obtain r where
    r: "relpath w (join dp f) s = Inr r" by blast
  from Cons.IH[OF Cons.prems, of "tfl @ [(join dp f, join a r)]" "c + 1"] obtain es where
    es: "files_loop w s a dp files (tfl @ [(join dp f, join a r)], c + 1) =
           Inr ((tfl @ [(join dp f, join a r)]) @ es, c + 1 + length files)"
        "map fst es = map (join dp) files" by blast
  show ?case
    using es by (intro exI[of _ "(join dp f, join a r) # es"]) (simp add: r Let_def)
qed

lemma walk_loop_result:
  "\<forall>t \<in> set triples. fst t \<noteq> [] \<Longrightarrow>
     \<exists>es. walk_loop w s a triples (tfl, c) = Inr (tfl @ es, c + length es) \<and>
          map fst es = walk_paths triples"
proof (induction triples arbitrary: tfl c)
  case Nil
  then show ?case by (simp add: walk_paths_def)
next
  case (Cons t triples)
  obtain dp ds fs where t: "t = (dp, ds, fs)" by (cases t) auto
  from Cons.prems have dp: "dp \<noteq> []" and rest: "\<forall>t \<in> set triples. fst t \<noteq> []"
    by (simp_all add: t)
  from files_loop_result[OF dp, of w s a fs tfl c] obtain es1 where
    1: "files_loop w s a dp fs (tfl, c) = Inr (tfl @ es1, c + length fs)"
       "map fst es1 = map (join dp) fs" by blast
  from Cons.IH[OF rest, of "tfl @ es1" "c + length fs"] obtain es2 where
    2: "walk_loop w s a triples (tfl @ es1, c + length fs) =
          Inr ((tfl @ es1) @ es2, c + length fs + length es2)"
       "map fst es2 = walk_paths triples" by blast
  have l: "length es1 = length fs" using 1(2) by (metis length_map)
  show ?case
    by (rule exI[of _ "es1 @ es2"]) (simp add: t 1 2 l walk_paths_def)
qed

lemma os_walk_dirpaths: "root \<noteq> [] \<Longrightarrow> \<forall>t \<in> set (os_walk keep root tr). fst t \<noteq> []"
proof (induction keep root tr rule: os_walk.induct)
  case (1 keep root files subdirs)
  show ?case
    using 1 by (fastforce simp: join_nonempty)
qed


lemma walk_paths_Cons:
  "walk_paths ((dp, ds, fs) # rest) = map (join dp) fs @ walk_paths rest"
  by (simp add: walk_paths_def)

lemma walk_paths_concat: "walk_paths (concat xss) = concat (map walk_paths xss)"
  by (induction xss) (simp_all add: walk_paths_def)

lemma concat_map_filter:
  "(\<And>x. x \<in> set xs \<Longrightarrow> K x \<Longrightarrow> F x = G x) \<Longrightarrow> (\<And>x. x \<in> set xs \<Longrightarrow> \<not> K x \<Longrightarrow> G x = []) \<Longrightarrow>
     concat (map F (filter K xs)) = concat (map G xs)"
  by (induction xs) auto

lemma source_path_of_Nil: "source_path_of root ([], f) = join root f"
  by (simp add: source_path_of_def)

lemma source_path_of_Cons: "source_path_of root (d # chain, f) = source_path_of (join root d) (chain, f)"
  by (simp add: source_path_of_def)

lemma filter_chain_Cons:
  "filter (\<lambda>cf. list_all keep (fst cf)) (map (\<lambda>(chain, f). (d # chain, f)) xs) =
     (if keep d then map (\<lambda>(chain, f). (d # chain, f)) (filter (\<lambda>cf. list_all keep (fst cf)) xs) else [])"
  by (induction xs) auto

lemma map_source_path_Cons:
  "map (source_path_of root) (map (\<lambda>(chain, f). (d # chain, f)) xs) =
     map (source_path_of (join root d)) xs"
  by (induction xs) (auto simp: source_path_of_Cons)

lemma walk_paths_os_walk:
  "walk_paths (os_walk keep root tr) =
     map (source_path_of root) (filter (\<lambda>cf. list_all keep (fst cf)) (tree_files tr))"
proof (induction keep root tr rule: os_walk.induct)
  case (1 keep root files subdirs)
  let ?P = "\<lambda>cf. list_all keep (fst cf)"
  let ?F = "\<lambda>x. walk_paths (case x of (d, sub) \<Rightarrow> os_walk keep (join root d) sub)"
  let ?G = "\<lambda>x. map (source_path_of root)
                 (filter ?P (case x of (d, sub) \<Rightarrow> map (\<lambda>(chain, f). (d # chain, f)) (tree_files sub)))"
  have a: "concat (map ?F (filter (\<lambda>(d, sub). keep d) subdirs)) = concat (map ?G subdirs)"
  proof (rule concat_map_filter)
    fix x assume x: "x \<in> set subdirs" "case x of (d, sub) \<Rightarrow> keep d"
    obtain d sub where xd: "x = (d, sub)" by (cases x) auto
    from x xd have "(d, sub) \<in> set (filter (\<lambda>(d, sub). keep d) subdirs)" by simp
    from 1[OF this refl] x(2) show "?F x = ?G x"
      by (simp add: xd filter_chain_Cons map_source_path_Cons source_path_of_Cons)
  next
    fix x assume x: "x \<in> set subdirs" "\<not> (case x of (d, sub) \<Rightarrow> keep d)"
    obtain d sub where xd: "x = (d, sub)" by (cases x) auto
    from x(2) show "?G x = []" by (simp add: xd filter_chain_Cons)
  qed
  have b: "filter ?P (map (\<lambda>f. ([], f)) files) = map (\<lambda>f. ([], f)) files"
    by (induction files) auto
  show ?case
    by (simp add: walk_paths_Cons walk_paths_concat comp_def a b source_path_of_Nil
          filter_concat map_concat)
qed


lemma common_loop_commute: "common_loop xs ys = common_loop ys xs"
  by (induction xs ys rule: common_loop.induct) (auto, (case_tac s2; simp)+)

lemma common_loop_prefix: "(common_loop xs ys = xs) = prefix xs ys"
  by (induction xs ys rule: common_loop.induct) auto

lemma common_loop_self: "common_loop xs xs = xs"
  by (simp add: common_loop_prefix)

lemma common_loop_min_max:
  fixes a b :: "string list"
  shows "common_loop (min b a) (max b a) = common_loop a b"
proof (cases "b \<le> a")
  case True
  then show ?thesis by (simp add: min_def max_def common_loop_commute[of b a])
next
  case False
  then show ?thesis by (simp add: min_def max_def)
qed

lemma py_min_single: "py_min [a] = a" and py_max_single: "py_max [a] = a"
  by (simp_all add: py_min_def py_max_def)

lemma py_min_pair: "py_min [a, b] = min b a" and py_max_pair: "py_max [a, b] = max b a"
  by (simp_all add: py_min_def py_max_def)

lemma split_sep_free: "\<forall>c \<in> set (split d p). d \<notin> set c"
  by (induction p) (auto split: list.splits)

lemma split_nonempty: "split d p \<noteq> []"
  by (induction p) (auto split: list.splits)

lemma split_no_sep: "d \<notin> set x \<Longrightarrow> split d x = [x]"
  by (induction x) auto

lemma split_append: "d \<notin> set x \<Longrightarrow> split d (x @ d # rest) = x # split d rest"
  by (induction x) (auto simp: split_nonempty split: list.splits)

lemma split_sep_join:
  "xs \<noteq> [] \<Longrightarrow> \<forall>x \<in> set xs. sep \<notin> set x \<Longrightarrow> split sep (sep_join xs) = xs"
  by (induction xs rule: sep_join.induct) (auto simp: split_no_sep split_append)

lemma sep_join_empty: "\<forall>x \<in> set xs. x \<noteq> [] \<Longrightarrow> (sep_join xs = []) = (xs = [])"
  by (induction xs rule: sep_join.induct) auto

lemma sep_join_inject:
  assumes "\<forall>x \<in> set xs. sep \<notin> set x \<and> x \<noteq> []" "\<forall>y \<in> set ys. sep \<notin> set y \<and> y \<noteq> []"
    "sep_join xs = sep_join ys"
  shows "xs = ys"
proof (cases "xs = [] \<or> ys = []")
  case True
  then show ?thesis using assms sep_join_empty[of xs] sep_join_empty[of ys] by auto
next
  case False
  then have x: "split sep (sep_join xs) = xs" and y: "split sep (sep_join ys) = ys"
    using assms(1,2) by (simp_all add: split_sep_join)
  have "xs = split sep (sep_join ys)" unfolding assms(3)[symmetric] by (rule x[symmetric])
  then show ?thesis unfolding y .
qed

lemma components_ok: "\<forall>c \<in> set (components p). sep \<notin> set c \<and> c \<noteq> []"
  using split_sep_free[of sep p] by (auto simp: components_def)

lemma common_loop_subset: "set (common_loop xs ys) \<subseteq> set xs"
  by (induction xs ys rule: common_loop.induct) auto

lemma commonpath_single:
  "commonpath [p] = Inr ((if isabs p then [sep] else []) @ sep_join (components p))"
  by (simp add: commonpath_def Let_def py_min_single py_max_single common_loop_self)

lemma commonpath_pair:
  "commonpath [p, q] =
     (if isabs p = isabs q
      then Inr ((if isabs p then [sep] else []) @ sep_join (common_loop (components p) (components q)))
      else Inl (ValueError ''Can't mix absolute and relative paths''))"
  by (simp add: commonpath_def Let_def py_min_pair py_max_pair common_loop_min_max)

lemma dest_inside_source_iff:
  "dest_inside_source src dst = (isabs src = isabs dst \<and> prefix (components src) (components dst))"
proof (cases "src = dst")
  case True
  then show ?thesis by (simp add: dest_inside_source_def)
next
  case False
  show ?thesis
  proof (cases "isabs src = isabs dst")
    case True
    have ok: "\<forall>x \<in> set (common_loop (components src) (components dst)). sep \<notin> set x \<and> x \<noteq> []"
      using components_ok[of src] common_loop_subset[of "components src" "components dst"] by blast
    have "(sep_join (components src) = sep_join (common_loop (components src) (components dst)))
            = prefix (components src) (components dst)"
      using sep_join_inject[OF components_ok[of src] ok] common_loop_prefix[of "components src" "components dst"]
      by auto
    then show ?thesis
      using False True by (simp add: dest_inside_source_def commonpath_single commonpath_pair)
  next
    case False
    then show ?thesis
      using \<open>src \<noteq> dst\<close> by (simp add: dest_inside_source_def commonpath_single commonpath_pair)
  qed
qed


lemma join_nonempty2: "b \<noteq> [] \<Longrightarrow> join a b \<noteq> []"
  by (simp add: join_def)

lemma get_actual_dest_dir_nonempty: "get_actual_dest_dir st now = Some d \<Longrightarrow> d \<noteq> []"
  by (auto simp: get_actual_dest_dir_def Let_def join_nonempty2 split: if_splits prod.splits)

lemma is_excluded_plan_fields:
  "is_excluded (st\<lparr> files_to_copy_list := fl, total_files_count := c, last_calculation_mode := m \<rparr>) =
     is_excluded st"
  by (rule ext) (simp add: is_excluded_def)

lemma calculation_thread_result:
  assumes "src \<noteq> []" "dir_at w src = Some t"
  shows "\<exists>plan. calculation_thread w st ign src dst = Inr (plan, length plan) \<and>
           map fst plan =
             map (source_path_of src)
               (filter (\<lambda>cf. list_all (\<lambda>d. ign \<or> \<not> is_excluded st d) (fst cf)) (tree_files t))"
proof -
  let ?triples = "os_walk (\<lambda>d. ign \<or> \<not> is_excluded st d) src t"
  from walk_loop_result[OF os_walk_dirpaths[OF assms(1), where keep="\<lambda>d. ign \<or> \<not> is_excluded st d"
        and tr=t], where w=w and s=src and a=dst and tfl="[]" and c=0]
  obtain es where es: "walk_loop w src dst ?triples ([], 0) = Inr ([] @ es, 0 + length es)"
    "map fst es = walk_paths ?triples" by blast
  show ?thesis
    by (rule exI[of _ es]) (simp add: calculation_thread_def assms(2) es walk_paths_os_walk)
qed

lemma build_result:
  assumes "source_dir_var st \<noteq> []" "get_actual_dest_dir st now = Some dst"
    "dir_at w (source_dir_var st) = Some t" "\<not> dest_inside_source (source_dir_var st) dst"
  shows "\<exists>plan. start_file_calculation w now ign mode st =
                  Inr (st\<lparr> files_to_copy_list := plan, total_files_count := length plan,
                          last_calculation_mode := Some mode \<rparr>) \<and>
           map fst plan =
             map (source_path_of (source_dir_var st))
               (filter (\<lambda>cf. list_all (\<lambda>d. ign \<or> \<not> is_excluded st d) (fst cf)) (tree_files t))"
proof -
  let ?st1 = "st\<lparr> files_to_copy_list := [], total_files_count := 0, last_calculation_mode := Some mode \<rparr>"
  from calculation_thread_result[OF assms(1,3), of ?st1 ign dst] obtain plan where
    p: "calculation_thread w ?st1 ign (source_dir_var st) dst = Inr (plan, length plan)"
       "map fst plan =
          map (source_path_of (source_dir_var st))
            (filter (\<lambda>cf. list_all (\<lambda>d. ign \<or> \<not> is_excluded st d) (fst cf)) (tree_files t))"
    unfolding is_excluded_plan_fields by blast
  have "start_file_calculation w now ign mode st =
          Inr (st\<lparr> files_to_copy_list := plan, total_files_count := length plan,
                  last_calculation_mode := Some mode \<rparr>)"
    using assms get_actual_dest_dir_nonempty[OF assms(2)]
    by (simp add: start_file_calculation_def Let_def isdir_def p(1) update_calculation_result_def)
  with p(2) show ?thesis by blast
qed

lemma split_append_sep: "split d (a @ d # b) = split d a @ split d b"
  by (induction a) (auto simp: split_nonempty split: list.splits)

lemma components_append: "components (a @ sep # b) = components a @ components b"
  by (simp add: components_def split_append_sep)

lemma isabs_append: "a \<noteq> [] \<Longrightarrow> isabs (a @ b) = isabs a"
  by (cases a) (simp_all add: isabs_def)

lemma nested_result:
  assumes "source_dir_var st \<noteq> []" "isdir w (source_dir_var st)"
    "get_actual_dest_dir st now = Some dst" "dest_inside_source (source_dir_var st) dst"
  shows "start_file_calculation w now ign mode st = Inl (DestinationNested, st)"
  using assms get_actual_dest_dir_nonempty[OF assms(3)]
  by (simp add: start_file_calculation_def Let_def)

section \<open>The example project\<close>

lemma commonprefix_pair: "commonprefix [a, b] = common_loop a b"
  by (simp add: commonprefix_def py_min_pair py_max_pair common_loop_min_max)

lemmas project_simps =
  project_state_def project_state_to_def project_world_def project_tree_def load_config_def
  read_config_def empty_doc_def dict_get_def initial_state_def lower_set_def isdir_def
  DEFAULT_EXCLUDED_FOLDERS_EXACT_def DEFAULT_EXCLUDED_FOLDERS_PREFIX_def lower_def lower_char_def
  example_time_def

lemmas calc_simps =
  calculate_files_to_copy_def calculate_files_for_full_copy_def start_file_calculation_def
  get_actual_dest_dir_def dest_inside_source_iff isabs_def components_def calculation_thread_def
  is_excluded_def update_calculation_result_def relpath_def abspath_def normpath_def
  commonprefix_pair path_simps

lemma project_selective:
  "calculate_files_to_copy project_world example_time project_state =
     Inr (project_state
           \<lparr> files_to_copy_list :=
               [(''/home/u/project/file1.txt'', ''/backup/project/file1.txt''),
                (''/home/u/project/sub/file2.txt'', ''/backup/project/sub/file2.txt''),
                (''/home/u/project/sub/node_modules'', ''/backup/project/sub/node_modules'')],
             total_files_count := 3, last_calculation_mode := Some Selective \<rparr>)"
  by (simp add: project_simps calc_simps)

lemma project_full:
  "calculate_files_for_full_copy project_world example_time project_state =
     Inr (project_state
           \<lparr> files_to_copy_list :=
               [(''/home/u/project/file1.txt'', ''/backup/project/file1.txt''),
                (''/home/u/project/.git/config'', ''/backup/project/.git/config''),
                (''/home/u/project/node_modules/pkg/index.js'',
                 ''/backup/project/node_modules/pkg/index.js''),
                (''/home/u/project/sub/file2.txt'', ''/backup/project/sub/file2.txt''),
                (''/home/u/project/sub/node_modules'', ''/backup/project/sub/node_modules'')],
             total_files_count := 5, last_calculation_mode := Some Full \<rparr>)"
  by (simp add: project_simps calc_simps)


lemma project_pre:
  "source_dir_var project_state \<noteq> []"
  "get_actual_dest_dir project_state example_time = Some ''/backup/project''"
  "dir_at project_world (source_dir_var project_state) = Some project_tree"
  "\<not> dest_inside_source (source_dir_var project_state) ''/backup/project''"
  by (simp_all add: project_simps calc_simps)

lemma project_rules:
  "is_excluded project_state ''.git''" "is_excluded project_state ''node_modules''"
  "\<not> is_excluded project_state ''sub''" "\<not> is_excluded project_state ''pkg''"
  by (simp_all add: project_simps is_excluded_def)

section \<open>C3: the count of a plan\<close>

text \<open>
  C3. Whenever a calculation, selective or full, completes and stores its plan, the stored
  total count is the length of the stored list of entries.
\<close>

theorem total_count_is_length:
  "start_file_calculation w now ignore_exclusions mode st = Inr st' \<Longrightarrow>
     total_files_count st' = length (files_to_copy_list st')"
  by (auto simp: start_file_calculation_def update_calculation_result_def Let_def
      split: option.splits if_splits sum.splits dest: calculation_thread_count)


theorem total_count_is_length_witness:
  "calculate_files_to_copy project_world example_time project_state =
     Inr (project_state
           \<lparr> files_to_copy_list :=
               [(''/home/u/project/file1.txt'', ''/backup/project/file1.txt''),
                (''/home/u/project/sub/file2.txt'', ''/backup/project/sub/file2.txt''),
                (''/home/u/project/sub/node_modules'', ''/backup/project/sub/node_modules'')],
             total_files_count := 3, last_calculation_mode := Some Selective \<rparr>)
   \<and> total_files_count
        (project_state
           \<lparr> files_to_copy_list :=
               [(''/home/u/project/file1.txt'', ''/backup/project/file1.txt''),
                (''/home/u/project/sub/file2.txt'', ''/backup/project/sub/file2.txt''),
                (''/home/u/project/sub/node_modules'', ''/backup/project/sub/node_modules'')],
             total_files_count := 3, last_calculation_mode := Some Selective \<rparr>) = 3"
proof -
  note p = project_selective[unfolded calculate_files_to_copy_def]
  from total_count_is_length[OF p] project_selective show ?thesis by simp
qed

section \<open>C1: selective and full plans\<close>

lemma tree_files_wf:
  "wf_tree t \<Longrightarrow> (chain, f) \<in> set (tree_files t) \<Longrightarrow> list_all wf_name chain \<and> wf_name f"
proof (induction t arbitrary: chain f rule: tree_files.induct)
  case (1 files subdirs)
  from "1.prems"(2) consider
    (here) "chain = []" "f \<in> set files"
  | (below) d sub chain' where "(d, sub) \<in> set subdirs" "chain = d # chain'"
      "(chain', f) \<in> set (tree_files sub)"
    by auto
  then show ?case
  proof cases
    case here
    then show ?thesis using "1.prems"(1) by (auto simp: list_all_iff)
  next
    case below
    from "1.prems"(1) below(1) have w: "wf_name d" "wf_tree sub"
      by (auto simp: list_all_iff)
    from "1.IH"[OF below(1) refl w(2) below(3)] w(1) below(2) show ?thesis by simp
  qed
qed

lemma join_wf: "a \<noteq> [] \<Longrightarrow> wf_name b \<Longrightarrow> join a b = with_sep a @ b"
  by (cases b) (auto simp: join_def with_sep_def wf_name_def)

lemma with_sep_join: "a \<noteq> [] \<Longrightarrow> wf_name b \<Longrightarrow> with_sep (join a b) = with_sep a @ b @ [sep]"
proof -
  assume a: "a \<noteq> []" and b: "wf_name b"
  have "last b \<in> set b" using b by (simp add: wf_name_def)
  then have "last b \<noteq> sep" using b[unfolded wf_name_def] by metis
  then show ?thesis using b by (simp add: join_wf[OF a b] with_sep_def wf_name_def)
qed

lemma sep_join_Cons: "xs \<noteq> [] \<Longrightarrow> sep_join (x # xs) = x @ [sep] @ sep_join xs"
  by (cases xs) simp_all

lemma source_path_of_wf:
  "src \<noteq> [] \<Longrightarrow> list_all wf_name chain \<Longrightarrow> wf_name f \<Longrightarrow>
     source_path_of src (chain, f) = with_sep src @ sep_join (chain @ [f])"
proof (induction chain arbitrary: src)
  case Nil
  then show ?case by (simp add: source_path_of_Nil join_wf)
next
  case (Cons d chain)
  from Cons.prems have d: "wf_name d" and c: "list_all wf_name chain" by simp_all
  have "source_path_of src (d # chain, f) = source_path_of (join src d) (chain, f)"
    by (rule source_path_of_Cons)
  also have "\<dots> = with_sep (join src d) @ sep_join (chain @ [f])"
    by (rule Cons.IH[OF join_nonempty[OF Cons.prems(1)] c Cons.prems(3)])
  also have "\<dots> = with_sep src @ sep_join ((d # chain) @ [f])"
    by (simp add: with_sep_join[OF Cons.prems(1) d] sep_join_Cons)
  finally show ?case .
qed

lemma source_path_of_inject:
  assumes "src \<noteq> []" "list_all wf_name (fst cf)" "wf_name (snd cf)"
    "list_all wf_name (fst cf')" "wf_name (snd cf')"
    "source_path_of src cf = source_path_of src cf'"
  shows "cf = cf'"
proof -
  obtain c f c' f' where cf: "cf = (c, f)" "cf' = (c', f')" by (cases cf, cases cf') auto
  have "sep_join (c @ [f]) = sep_join (c' @ [f'])"
    using assms source_path_of_wf[of src c f] source_path_of_wf[of src c' f'] by (simp add: cf)
  moreover have "\<forall>x \<in> set (c @ [f]). sep \<notin> set x \<and> x \<noteq> []"
    "\<forall>x \<in> set (c' @ [f']). sep \<notin> set x \<and> x \<noteq> []"
    using assms(2-5) by (auto simp: cf list_all_iff wf_name_def)
  ultimately have "c @ [f] = c' @ [f']" by (rule sep_join_inject[rotated 2])
  then show ?thesis by (simp add: cf)
qed


lemma excluded_paths_absent:
  assumes "src \<noteq> []" "wf_tree t"
    and "paths = map (source_path_of src) (filter (\<lambda>cf. \<not> list_ex excl (fst cf)) (tree_files t))"
    and "cf \<in> set (tree_files t)" "list_ex excl (fst cf)"
  shows "source_path_of src cf \<notin> set paths"
proof
  assume "source_path_of src cf \<in> set paths"
  then obtain cf' where cf': "cf' \<in> set (tree_files t)" "\<not> list_ex excl (fst cf')"
    "source_path_of src cf' = source_path_of src cf"
    unfolding assms(3) by auto
  have w: "list_all wf_name (fst cf) \<and> wf_name (snd cf)"
    "list_all wf_name (fst cf') \<and> wf_name (snd cf')"
    using tree_files_wf[OF assms(2), of "fst cf" "snd cf"]
      tree_files_wf[OF assms(2), of "fst cf'" "snd cf'"] assms(4) cf'(1) by simp_all
  have "cf' = cf"
    using source_path_of_inject[OF assms(1) _ _ _ _ cf'(3)] w by blast
  with cf'(2) assms(5) show False by simp
qed

text \<open>
  C1. Let the source be a directory holding the tree \<open>t\<close> and let the destination pass the
  checks. The selective calculation completes, and the source paths of its plan are, in
  the order of the walk, exactly the paths of the files of \<open>t\<close> whose chain of folders
  from the root holds no excluded name; when the names of \<open>t\<close> are well formed, the path
  of no file of \<open>t\<close> that lies under an excluded folder is a source path of the plan.
  The full calculation completes, and the source paths of its plan are the paths of all
  the files of \<open>t\<close>, those under excluded folders included.
\<close>

theorem plan_selective_and_full:
  assumes "source_dir_var st \<noteq> []"
    and "get_actual_dest_dir st now = Some dst"
    and "dir_at w (source_dir_var st) = Some t"
    and "\<not> dest_inside_source (source_dir_var st) dst"
  shows "(\<exists>st'. calculate_files_to_copy w now st = Inr st' \<and>
            map fst (files_to_copy_list st') =
              map (source_path_of (source_dir_var st))
                (filter (\<lambda>cf. \<not> list_ex (is_excluded st) (fst cf)) (tree_files t)) \<and>
            (wf_tree t \<longrightarrow>
              (\<forall>cf \<in> set (tree_files t). list_ex (is_excluded st) (fst cf) \<longrightarrow>
                 source_path_of (source_dir_var st) cf \<notin> fst ` set (files_to_copy_list st'))))
       \<and> (\<exists>st'. calculate_files_for_full_copy w now st = Inr st' \<and>
            map fst (files_to_copy_list st') =
              map (source_path_of (source_dir_var st)) (tree_files t))"
proof -
  have sel: "(\<lambda>cf. list_all (\<lambda>d. False \<or> \<not> is_excluded st d) (fst cf)) =
             (\<lambda>cf. \<not> list_ex (is_excluded st) (fst cf))"
    by (rule ext) (simp add: list_all_iff list_ex_iff)
  from build_result[OF assms, of False Selective] obtain plan where
    p: "calculate_files_to_copy w now st =
          Inr (st\<lparr> files_to_copy_list := plan, total_files_count := length plan,
                  last_calculation_mode := Some Selective \<rparr>)"
       "map fst plan =
          map (source_path_of (source_dir_var st))
            (filter (\<lambda>cf. \<not> list_ex (is_excluded st) (fst cf)) (tree_files t))"
    unfolding calculate_files_to_copy_def sel by blast
  have a: "wf_tree t \<longrightarrow>
              (\<forall>cf \<in> set (tree_files t). list_ex (is_excluded st) (fst cf) \<longrightarrow>
                 source_path_of (source_dir_var st) cf \<notin> fst ` set plan)"
    using excluded_paths_absent[OF assms(1) _ p(2)] by (auto simp flip: set_map)
  from build_result[OF assms, of True Full] have full:
    "\<exists>st'. calculate_files_for_full_copy w now st = Inr st' \<and>
            map fst (files_to_copy_list st') =
              map (source_path_of (source_dir_var st)) (tree_files t)"
    unfolding calculate_files_for_full_copy_def by (auto simp: list_all_iff)
  from p a have
    "\<exists>st'. calculate_files_to_copy w now st = Inr st' \<and>
            map fst (files_to_copy_list st') =
              map (source_path_of (source_dir_var st))
                (filter (\<lambda>cf. \<not> list_ex (is_excluded st) (fst cf)) (tree_files t)) \<and>
            (wf_tree t \<longrightarrow>
              (\<forall>cf \<in> set (tree_files t). list_ex (is_excluded st) (fst cf) \<longrightarrow>
                 source_path_of (source_dir_var st) cf \<notin> fst ` set (files_to_copy_list st')))"
    by (intro exI[of _ "st\<lparr> files_to_copy_list := plan, total_files_count := length plan,
                  last_calculation_mode := Some Selective \<rparr>"]) simp
  with full show ?thesis by blast
qed

theorem plan_selective_and_full_witness:
  "wf_tree project_tree
   \<and> ([''.git''], ''config'') \<in> set (tree_files project_tree)
   \<and> list_ex (is_excluded project_state) [''.git'']
   \<and> (\<exists>st'. calculate_files_to_copy project_world example_time project_state = Inr st' \<and>
         map fst (files_to_copy_list st') =
           [''/home/u/project/file1.txt'', ''/home/u/project/sub/file2.txt'',
            ''/home/u/project/sub/node_modules''] \<and>
         ''/home/u/project/.git/config'' \<notin> fst ` set (files_to_copy_list st'))
   \<and> (\<exists>st'. calculate_files_for_full_copy project_world example_time project_state = Inr st' \<and>
         map fst (files_to_copy_list st') =
           [''/home/u/project/file1.txt'', ''/home/u/project/.git/config'',
            ''/home/u/project/node_modules/pkg/index.js'', ''/home/u/project/sub/file2.txt'',
            ''/home/u/project/sub/node_modules''])"
proof -
  have s: "source_dir_var project_state = ''/home/u/project''"
    by (simp add: project_simps)
  have f: "map (source_path_of ''/home/u/project'')
             (filter (\<lambda>cf. \<not> list_ex (is_excluded project_state) (fst cf))
                (tree_files project_tree)) =
           [''/home/u/project/file1.txt'', ''/home/u/project/sub/file2.txt'',
            ''/home/u/project/sub/node_modules'']"
    by (simp add: project_tree_def project_rules source_path_of_def path_simps)
  have a: "map (source_path_of ''/home/u/project'') (tree_files project_tree) =
           [''/home/u/project/file1.txt'', ''/home/u/project/.git/config'',
            ''/home/u/project/node_modules/pkg/index.js'', ''/home/u/project/sub/file2.txt'',
            ''/home/u/project/sub/node_modules'']"
    by (simp add: project_tree_def source_path_of_def path_simps)
  have w: "wf_tree project_tree"
    by (simp add: project_tree_def wf_name_def sep_def)
  have m: "([''.git''], ''config'') \<in> set (tree_files project_tree)"
    by (simp add: project_tree_def)
  have x: "list_ex (is_excluded project_state) [''.git'']"
    by (simp add: project_rules)
  have p: "source_path_of ''/home/u/project'' ([''.git''], ''config'') =
             ''/home/u/project/.git/config''"
    by (simp add: source_path_of_def path_simps)
  note t = plan_selective_and_full[OF project_pre, unfolded s f a]
  from t[THEN conjunct1] obtain st1 where
    1: "calculate_files_to_copy project_world example_time project_state = Inr st1 \<and>
        map fst (files_to_copy_list st1) =
          [''/home/u/project/file1.txt'', ''/home/u/project/sub/file2.txt'',
           ''/home/u/project/sub/node_modules''] \<and>
        (wf_tree project_tree \<longrightarrow>
          (\<forall>cf \<in> set (tree_files project_tree). list_ex (is_excluded project_state) (fst cf) \<longrightarrow>
             source_path_of ''/home/u/project'' cf \<notin> fst ` set (files_to_copy_list st1)))" ..
  note all = 1[THEN conjunct2, THEN conjunct2, rule_format, OF w m]
  have "source_path_of ''/home/u/project'' ([''.git''], ''config'') \<notin>
          fst ` set (files_to_copy_list st1)"
    by (rule all) (simp only: fst_conv x)
  then have 2: "''/home/u/project/.git/config'' \<notin> fst ` set (files_to_copy_list st1)"
    unfolding p .
  have sel: "\<exists>st'. calculate_files_to_copy project_world example_time project_state = Inr st' \<and>
         map fst (files_to_copy_list st') =
           [''/home/u/project/file1.txt'', ''/home/u/project/sub/file2.txt'',
            ''/home/u/project/sub/node_modules''] \<and>
         ''/home/u/project/.git/config'' \<notin> fst ` set (files_to_copy_list st')"
    by (intro exI[of _ st1] conjI 1[THEN conjunct1] 1[THEN conjunct2, THEN conjunct1] 2)
  show ?thesis
    by (intro conjI w m x sel t[THEN conjunct2])
qed

section \<open>C9: rules filter folders, not files\<close>

text \<open>
  C9. A regular file of the source tree whose chain of folders from the root holds no
  excluded name is an entry of the selective plan whatever its own name is, also when
  \<open>is_excluded\<close> holds of that name.
\<close>

theorem excluded_file_name_is_planned:
  assumes "source_dir_var st \<noteq> []"
    and "get_actual_dest_dir st now = Some dst"
    and "dir_at w (source_dir_var st) = Some t"
    and "\<not> dest_inside_source (source_dir_var st) dst"
    and "(chain, f) \<in> set (tree_files t)"
    and "\<not> list_ex (is_excluded st) chain"
    and "is_excluded st f"
  shows "\<exists>st'. calculate_files_to_copy w now st = Inr st' \<and>
           source_path_of (source_dir_var st) (chain, f) \<in> fst ` set (files_to_copy_list st')"
proof -
  from build_result[OF assms(1-4), of False Selective] obtain plan where
    p: "calculate_files_to_copy w now st =
          Inr (st\<lparr> files_to_copy_list := plan, total_files_count := length plan,
                  last_calculation_mode := Some Selective \<rparr>)"
       "map fst plan =
          map (source_path_of (source_dir_var st))
            (filter (\<lambda>cf. list_all (\<lambda>d. False \<or> \<not> is_excluded st d) (fst cf)) (tree_files t))"
    unfolding calculate_files_to_copy_def by blast
  have "(chain, f) \<in> set (filter (\<lambda>cf. list_all (\<lambda>d. False \<or> \<not> is_excluded st d) (fst cf)) (tree_files t))"
    using assms(5,6) by (simp add: list_all_iff list_ex_iff)
  then have "source_path_of (source_dir_var st) (chain, f) \<in> set (map fst plan)"
    unfolding p(2) set_map by (rule imageI)
  then show ?thesis using p(1) by (auto simp: image_iff)
qed

theorem excluded_file_name_is_planned_witness:
  "([''sub''], ''node_modules'') \<in> set (tree_files project_tree)
   \<and> \<not> list_ex (is_excluded project_state) [''sub'']
   \<and> is_excluded project_state ''node_modules''
   \<and> (\<exists>st'. calculate_files_to_copy project_world example_time project_state = Inr st' \<and>
         ''/home/u/project/sub/node_modules'' \<in> fst ` set (files_to_copy_list st'))"
proof -
  have m: "([''sub''], ''node_modules'') \<in> set (tree_files project_tree)"
    by (simp add: project_tree_def)
  have c: "\<not> list_ex (is_excluded project_state) [''sub'']"
    by (simp add: project_rules)
  have p: "source_path_of (source_dir_var project_state) ([''sub''], ''node_modules'') =
             ''/home/u/project/sub/node_modules''"
    by (simp add: project_simps source_path_of_def path_simps)
  from excluded_file_name_is_planned[OF project_pre m c project_rules(2)] m c project_rules(2)
  show ?thesis unfolding p by blast
qed

section \<open>C5: the destination must not lie inside the source\<close>

text \<open>
  C5. Let the source be a directory and the resolved destination be \<open>dst\<close>. When \<open>dst\<close> is
  the source path itself, or the source path followed by a separator and anything, the
  calculation ends with \<open>DestinationNested\<close> and the state untouched: nothing is
  traversed. It ends so exactly when the two paths are both absolute or both relative
  and the components of the source are an initial part of the components of \<open>dst\<close>. When
  the components of the source are not an initial part of those of \<open>dst\<close> the check
  passes and the calculation completes; and whenever the common-path comparison is
  undefined, raising \<open>ValueError\<close>, the check passes as well.
\<close>

theorem destination_containment:
  assumes "source_dir_var st \<noteq> []" "isdir w (source_dir_var st)"
    "get_actual_dest_dir st now = Some dst"
  shows "(dst = source_dir_var st \<or> dst = source_dir_var st @ sep # sub \<longrightarrow>
            start_file_calculation w now ign mode st = Inl (DestinationNested, st))
       \<and> ((start_file_calculation w now ign mode st = Inl (DestinationNested, st)) =
            (isabs (source_dir_var st) = isabs dst \<and>
             prefix (components (source_dir_var st)) (components dst)))
       \<and> (\<not> prefix (components (source_dir_var st)) (components dst) \<longrightarrow>
            (\<exists>st'. start_file_calculation w now ign mode st = Inr st'))
       \<and> ((\<exists>e. commonpath [source_dir_var st, dst] = Inl e) \<longrightarrow>
            (\<exists>st'. start_file_calculation w now ign mode st = Inr st'))"
proof -
  let ?src = "source_dir_var st"
  let ?inside = "isabs ?src = isabs dst \<and> prefix (components ?src) (components dst)"
  obtain t where t: "dir_at w ?src = Some t" using assms(2) by (auto simp: isdir_def)
  have pass: "\<not> ?inside \<Longrightarrow> \<exists>st'. start_file_calculation w now ign mode st = Inr st'"
    using build_result[OF assms(1,3) t, of ign mode] by (auto simp: dest_inside_source_iff)
  have fail: "?inside \<Longrightarrow> start_file_calculation w now ign mode st = Inl (DestinationNested, st)"
    using nested_result[OF assms] by (simp add: dest_inside_source_iff)
  have 1: "dst = ?src \<or> dst = ?src @ sep # sub \<longrightarrow> ?inside"
    using assms(1) by (auto simp: components_append isabs_append)
  have 4: "(\<exists>e. commonpath [?src, dst] = Inl e) \<longrightarrow> \<not> ?inside"
    by (auto simp: commonpath_pair split: if_splits)
  show ?thesis
    using pass fail 1 4 by (intro conjI) auto
qed


theorem destination_containment_witness:
  "calculate_files_to_copy project_world example_time (project_state_to ''/home/u/project'') =
     Inl (DestinationNested, project_state_to ''/home/u/project'')
   \<and> calculate_files_to_copy project_world example_time (project_state_to ''/home/u/project/sub'') =
     Inl (DestinationNested, project_state_to ''/home/u/project/sub'')
   \<and> (\<exists>st'. calculate_files_to_copy project_world example_time (project_state_to ''/backup/project'') = Inr st')
   \<and> (\<exists>e. commonpath [''/home/u/project'', ''backup''] = Inl e)
   \<and> (\<exists>st'. calculate_files_to_copy project_world example_time (project_state_to ''backup'') = Inr st')"
proof -
  have pre: "source_dir_var (project_state_to d) \<noteq> []"
    "isdir project_world (source_dir_var (project_state_to d))" for d
    by (simp_all add: project_simps)
  have g: "d \<noteq> [] \<Longrightarrow> get_actual_dest_dir (project_state_to d) example_time = Some d" for d
    by (simp add: project_simps get_actual_dest_dir_def)
  have s: "source_dir_var (project_state_to d) = ''/home/u/project''" for d
    by (simp add: project_simps)
  have 1: "calculate_files_to_copy project_world example_time (project_state_to ''/home/u/project'') =
     Inl (DestinationNested, project_state_to ''/home/u/project'')"
    using destination_containment[OF pre g, of "''/home/u/project''" "''sub''" False Selective]
    by (simp add: s calculate_files_to_copy_def)
  have 2: "calculate_files_to_copy project_world example_time (project_state_to ''/home/u/project/sub'') =
     Inl (DestinationNested, project_state_to ''/home/u/project/sub'')"
    using destination_containment[OF pre g, of "''/home/u/project/sub''" "''sub''" False Selective]
    by (simp add: s calculate_files_to_copy_def sep_def)
  have 3: "\<exists>st'. calculate_files_to_copy project_world example_time (project_state_to ''/backup/project'') = Inr st'"
    using destination_containment[OF pre g, of "''/backup/project''" "''sub''" False Selective]
    by (simp add: s calculate_files_to_copy_def components_def sep_def)
  have e: "\<exists>e. commonpath [''/home/u/project'', ''backup''] = Inl e"
    by (simp add: commonpath_pair isabs_def sep_def)
  have 4: "\<exists>st'. calculate_files_to_copy project_world example_time (project_state_to ''backup'') = Inr st'"
    using destination_containment[OF pre g, of "''backup''" "''sub''" False Selective] e
    by (simp add: s calculate_files_to_copy_def)
  from 1 2 3 e 4 show ?thesis by blast
qed

section \<open>Lemmas on copying\<close>

lemma notifies_step:
  "(if (i + 1) mod max 1 (tc div 100) = 0 \<or> i + 1 = tc then es @ [UpdateProgress (i + 1) tc] else es) =
     es @ map (\<lambda>c. UpdateProgress c tc) (filter (notifies tc) [Suc i])"
  by (simp add: notifies_def)

lemma upt_Suc_Cons: "[Suc i..<Suc (i + Suc m)] = Suc i # [Suc (Suc i)..<Suc (Suc i + m)]"
  by (rule trans[OF upt_conv_Cons]) simp_all

lemma copy_loop_succeeds:
  "copy_files env plan (store cs) = Inr fs1 \<Longrightarrow> copied_count cs = i \<Longrightarrow>
     copy_loop env tc i plan cs =
       Inr \<lparr> store = fs1, copied_count = i + length plan,
             events = events cs @ map (\<lambda>c. UpdateProgress c tc)
                                   (filter (notifies tc) [Suc i..<Suc (i + length plan)]) \<rparr>"
proof (induction plan arbitrary: cs i)
  case Nil
  then show ?case by simp
next
  case (Cons entry rest)
  from Cons.prems(1) obtain fs' where
    1: "copy_entry env (store cs) entry = Inr fs'" and 2: "copy_files env rest fs' = Inr fs1"
    by (auto split: sum.splits)
  let ?cs1 = "\<lparr> store = fs', copied_count = Suc i,
                events = events cs @ map (\<lambda>c. UpdateProgress c tc) (filter (notifies tc) [Suc i]) \<rparr>"
  have step: "copy_loop env tc i (entry # rest) cs = copy_loop env tc (Suc i) rest ?cs1"
    using Cons.prems(2) by (simp add: 1 Let_def notifies_def)
  have ih: "copy_loop env tc (Suc i) rest ?cs1 =
              Inr \<lparr> store = fs1, copied_count = Suc i + length rest,
                    events = events ?cs1 @ map (\<lambda>c. UpdateProgress c tc)
                               (filter (notifies tc) [Suc (Suc i)..<Suc (Suc i + length rest)]) \<rparr>"
    by (rule Cons.IH) (simp_all add: 2)
  have u: "[Suc i..<Suc (i + length (entry # rest))] =
             Suc i # [Suc (Suc i)..<Suc (Suc i + length rest)]"
    using upt_Suc_Cons[of i "length rest"] by simp
  show ?case unfolding step ih u by simp
qed

lemma copy_loop_fails_at:
  "copy_files env pre (store cs) = Inr fs1 \<Longrightarrow> copy_entry env fs1 entry = Inl e \<Longrightarrow>
   copied_count cs = i \<Longrightarrow>
     copy_loop env tc i (pre @ entry # post) cs =
       Inl (e, \<lparr> store = fs1, copied_count = i + length pre,
                 events = events cs @ map (\<lambda>c. UpdateProgress c tc)
                                       (filter (notifies tc) [Suc i..<Suc (i + length pre)]) \<rparr>)"
proof (induction pre arbitrary: cs i)
  case Nil
  then show ?case by simp
next
  case (Cons x rest)
  from Cons.prems(1) obtain fs' where
    1: "copy_entry env (store cs) x = Inr fs'" and 2: "copy_files env rest fs' = Inr fs1"
    by (auto split: sum.splits)
  let ?cs1 = "\<lparr> store = fs', copied_count = Suc i,
                events = events cs @ map (\<lambda>c. UpdateProgress c tc) (filter (notifies tc) [Suc i]) \<rparr>"
  have step: "copy_loop env tc i ((x # rest) @ entry # post) cs =
                copy_loop env tc (Suc i) (rest @ entry # post) ?cs1"
    using Cons.prems(3) by (simp add: 1 Let_def notifies_def)
  have ih: "copy_loop env tc (Suc i) (rest @ entry # post) ?cs1 =
              Inl (e, \<lparr> store = fs1, copied_count = Suc i + length rest,
                        events = events ?cs1 @ map (\<lambda>c. UpdateProgress c tc)
                               (filter (notifies tc) [Suc (Suc i)..<Suc (Suc i + length rest)]) \<rparr>)"
    by (rule Cons.IH) (simp_all add: 2 Cons.prems(2))
  have u: "[Suc i..<Suc (i + length (x # rest))] =
             Suc i # [Suc (Suc i)..<Suc (Suc i + length rest)]"
    using upt_Suc_Cons[of i "length rest"] by simp
  show ?case unfolding step ih u by simp
qed

lemma copy_files_cases:
  "(\<exists>fs1. copy_files env plan fs = Inr fs1) \<or>
   (\<exists>pre entry post fs1 e. plan = pre @ entry # post \<and> copy_files env pre fs = Inr fs1 \<and>
       copy_entry env fs1 entry = Inl e)"
proof (induction plan arbitrary: fs)
  case Nil
  then show ?case by simp
next
  case (Cons x rest)
  show ?case
  proof (cases "copy_entry env fs x")
    case (Inl e)
    then have "x # rest = [] @ x # rest \<and> copy_files env [] fs = Inr fs \<and> copy_entry env fs x = Inl e"
      by simp
    then show ?thesis by blast
  next
    case (Inr fs')
    from Cons.IH[of fs'] show ?thesis
    proof
      assume "\<exists>fs1. copy_files env rest fs' = Inr fs1"
      then show ?thesis by (simp add: Inr)
    next
      assume "\<exists>pre entry post fs1 e. rest = pre @ entry # post \<and> copy_files env pre fs' = Inr fs1 \<and>
                copy_entry env fs1 entry = Inl e"
      then obtain pre entry post fs1 e where
        r: "rest = pre @ entry # post" "copy_files env pre fs' = Inr fs1" "copy_entry env fs1 entry = Inl e"
        by blast
      then have "x # rest = (x # pre) @ entry # post \<and> copy_files env (x # pre) fs = Inr fs1 \<and>
                   copy_entry env fs1 entry = Inl e"
        by (simp add: Inr)
      then show ?thesis by blast
    qed
  qed
qed






lemma copy_thread_success:
  assumes "copy_files env plan files0 = Inr fs1"
  shows "copy_thread env tc plan files0 =
           \<lparr> store = fs1, copied_count = length plan,
             events = map (\<lambda>c. UpdateProgress c tc) (filter (notifies tc) [1..<Suc (length plan)]) @
                      [ShowCopyComplete] \<rparr>"
  using copy_loop_succeeds[of env plan "\<lparr> store = files0, copied_count = 0, events = [] \<rparr>" fs1 0 tc] assms
  by (simp add: copy_thread_def)

lemma copy_thread_failure:
  assumes "plan = pre @ entry # post" "copy_files env pre files0 = Inr fs1"
    "copy_entry env fs1 entry = Inl e"
  shows "copy_thread env tc plan files0 =
           \<lparr> store = fs1, copied_count = length pre,
             events = map (\<lambda>c. UpdateProgress c tc) (filter (notifies tc) [1..<Suc (length pre)]) @
                      [ShowErrorAndReset (copy_error_message e)] \<rparr>"
  using copy_loop_fails_at[of env pre "\<lparr> store = files0, copied_count = 0, events = [] \<rparr>" fs1 entry e 0 tc post]
    assms
  by (simp add: copy_thread_def)

lemma progress_counts_map:
  "closing e \<Longrightarrow> progress_counts (map (\<lambda>c. UpdateProgress c tc) xs @ [e]) = xs"
  by (induction xs) (auto elim: closing.elims)

lemma closing_map:
  "closing e \<Longrightarrow> filter closing (map (\<lambda>c. UpdateProgress c tc) xs @ [e]) = [e]"
  by (induction xs) auto

lemma count_multiples: "0 < k \<Longrightarrow> length (filter (\<lambda>c. c mod k = 0) [1..<Suc m]) = m div k"
  by (induction m) (auto simp: div_Suc)

lemma interval_bound_aux: "0 < (n::nat) \<Longrightarrow> n - 1 < 199 * max 1 (n div 100)"
  by (cases "n < 100") (simp_all add: max_def, arith)

lemma interval_bound: "0 < (n::nat) \<Longrightarrow> (n - 1) div max 1 (n div 100) < 199"
proof -
  assume n: "0 < n"
  have k: "0 < max 1 (n div 100)" by simp
  from interval_bound_aux[OF n] k show ?thesis
    by (simp only: div_less_iff_less_mult)
qed

lemma notifies_below:
  "m < n \<Longrightarrow> filter (notifies n) [1..<Suc m] = filter (\<lambda>c. c mod max 1 (n div 100) = 0) [1..<Suc m]"
  by (rule filter_cong) (auto simp: notifies_def)

lemma notifies_full:
  "0 < n \<Longrightarrow> filter (notifies n) [1..<Suc n] = filter (\<lambda>c. c mod max 1 (n div 100) = 0) [1..<n] @ [n]"
proof -
  assume n: "0 < n"
  have "filter (notifies n) [1..<n] = filter (\<lambda>c. c mod max 1 (n div 100) = 0) [1..<n]"
    by (rule filter_cong) (auto simp: notifies_def)
  then show ?thesis using n by (simp add: notifies_def)
qed

lemma notifications_bound:
  assumes "0 < n" "m \<le> n"
  shows "length (filter (notifies n) [1..<Suc m]) \<le> 199"
proof (cases "m < n")
  case True
  have "length (filter (notifies n) [1..<Suc m]) = m div max 1 (n div 100)"
    unfolding notifies_below[OF True] by (rule count_multiples) simp
  also have "\<dots> \<le> (n - 1) div max 1 (n div 100)"
    using True by (intro div_le_mono) simp
  finally show ?thesis using interval_bound[OF assms(1)] by simp
next
  case False
  then have m: "m = n" using assms(2) by simp
  obtain n' where n': "n = Suc n'" using assms(1) by (cases n) auto
  have "length (filter (\<lambda>c. c mod max 1 (n div 100) = 0) [1..<Suc n']) = n' div max 1 (n div 100)"
    by (rule count_multiples) simp
  then have "length (filter (notifies n) [1..<Suc m]) = (n - 1) div max 1 (n div 100) + 1"
    unfolding m notifies_full[OF assms(1)] by (simp add: n')
  then show ?thesis using interval_bound[OF assms(1)] by simp
qed

lemma notifications_sorted: "sorted_wrt (<) (filter (notifies n) [1..<Suc m])"
  by (rule sorted_wrt_filter) (rule sorted_wrt_upt)

lemma notifications_below: "c \<in> set (filter (notifies n) [1..<Suc m]) \<Longrightarrow> c \<le> m"
  by auto

lemma copy_files_fails:
  "copy_files env pre fs = Inr fs1 \<Longrightarrow> copy_entry env fs1 entry = Inl e \<Longrightarrow>
     copy_files env (pre @ entry # post) fs = Inl e"
  by (induction pre arbitrary: fs) (auto split: sum.splits)

lemma copy_files_no_errors:
  "(\<forall>p. fs p \<noteq> None) \<Longrightarrow> \<exists>fs1. copy_files no_errors plan fs = Inr fs1"
proof (induction plan arbitrary: fs)
  case Nil
  then show ?case by simp
next
  case (Cons x rest)
  obtain s d where x: "x = (s, d)" by (cases x) auto
  from Cons.prems have "fs s \<noteq> None" by blast
  then obtain c where c: "fs s = Some c" by blast
  have 1: "copy_entry no_errors fs x = Inr (fs(d \<mapsto> c))"
    by (simp add: x copy_entry_def shutil_copy2_def no_errors_def c)
  have "\<forall>p. (fs(d \<mapsto> c)) p \<noteq> None" using Cons.prems by simp
  from Cons.IH[OF this] obtain fs1 where 2: "copy_files no_errors rest (fs(d \<mapsto> c)) = Inr fs1"
    by blast
  have "copy_files no_errors (x # rest) fs = Inr fs1"
    by (simp only: copy_files.simps 1 sum.case 2)
  then show ?case by blast
qed

lemmas copy_simps =
  copy_thread_def copy_entry_def shutil_copy2_def three_plan_def three_files_def no_errors_def
  deny_def copy_error_message_def Let_def path_simps

section \<open>C4: a failing copy\<close>





section \<open>C7: progress notifications\<close>

text \<open>
  C7, as the code has it. In every run on a plan of \<open>n > 0\<close> entries with the total count
  \<open>n\<close>, the copied counts of the progress notifications increase strictly and there are
  at most 199 notifications (one after every \<open>max 1 (n div 100)\<close>-th file and one after the
  last file). The run closes exactly once, with its last event: either the completion
  signal, and then the last notification has the copied count \<open>n\<close>, or a failure signal,
  and then no notification has the copied count \<open>n\<close>. A run in which every copy succeeds
  closes with the completion signal.
\<close>

theorem copy_progress_notifications:
  assumes "plan \<noteq> []" and "tc = length plan"
  shows "sorted_wrt (<) (progress_counts (events (copy_thread env tc plan files0)))
       \<and> length (progress_counts (events (copy_thread env tc plan files0))) \<le> 199
       \<and> filter closing (events (copy_thread env tc plan files0)) =
           [last (events (copy_thread env tc plan files0))]
       \<and> (last (events (copy_thread env tc plan files0)) = ShowCopyComplete \<longrightarrow>
            progress_counts (events (copy_thread env tc plan files0)) \<noteq> []
          \<and> last (progress_counts (events (copy_thread env tc plan files0))) = tc
          \<and> copied_count (copy_thread env tc plan files0) = tc)
       \<and> (last (events (copy_thread env tc plan files0)) \<noteq> ShowCopyComplete \<longrightarrow>
            (\<exists>e. last (events (copy_thread env tc plan files0)) =
                   ShowErrorAndReset (copy_error_message e))
          \<and> tc \<notin> set (progress_counts (events (copy_thread env tc plan files0)))
          \<and> copied_count (copy_thread env tc plan files0) < tc)
       \<and> ((\<exists>fs1. copy_files env plan files0 = Inr fs1) \<longrightarrow>
            events (copy_thread env tc plan files0) =
              map (\<lambda>c. UpdateProgress c tc) (filter (notifies tc) [1..<Suc tc]) @ [ShowCopyComplete])"
proof -
  have n: "0 < tc" using assms by simp
  from copy_files_cases[of env plan files0] show ?thesis
  proof
    assume "\<exists>fs1. copy_files env plan files0 = Inr fs1"
    then obtain fs1 where ok: "copy_files env plan files0 = Inr fs1" by blast
    note r = copy_thread_success[OF ok, of tc, folded assms(2)]
    have l: "filter (notifies tc) [1..<Suc tc] \<noteq> [] \<and> last (filter (notifies tc) [1..<Suc tc]) = tc"
      unfolding notifies_full[OF n] by simp
    show ?thesis
      unfolding r using notifications_sorted[of tc tc] notifications_bound[OF n order_refl] l ok
      by (simp add: progress_counts_map closing_map del: upt_Suc)
  next
    assume "\<exists>pre entry post fs1 e. plan = pre @ entry # post \<and> copy_files env pre files0 = Inr fs1 \<and>
              copy_entry env fs1 entry = Inl e"
    then obtain pre entry post fs1 e where
      f: "plan = pre @ entry # post" "copy_files env pre files0 = Inr fs1"
         "copy_entry env fs1 entry = Inl e" by blast
    note r = copy_thread_failure[OF f, of tc]
    have m: "length pre < tc" using f(1) assms(2) by simp
    have b: "tc \<notin> set (filter (notifies tc) [1..<Suc (length pre)])"
      using notifications_below[of tc tc "length pre"] m by auto
    have nok: "\<not> (\<exists>fs1. copy_files env plan files0 = Inr fs1)"
      unfolding f(1) copy_files_fails[OF f(2,3)] by simp
    show ?thesis
      unfolding r using notifications_sorted[of tc "length pre"]
        notifications_bound[OF n less_imp_le[OF m]] m b nok
      by (auto simp: progress_counts_map closing_map simp del: upt_Suc)
  qed
qed


theorem copy_progress_notifications_witness:
  "three_plan \<noteq> [] \<and> 3 = length three_plan
   \<and> copy_files no_errors three_plan three_files =
        Inr (three_files(''/d/a'' \<mapsto> ''A'', ''/d/b'' \<mapsto> ''B'', ''/d/c'' \<mapsto> ''C''))
   \<and> events (copy_thread no_errors 3 three_plan three_files) =
        [UpdateProgress 1 3, UpdateProgress 2 3, UpdateProgress 3 3, ShowCopyComplete]
   \<and> sorted_wrt (<) (progress_counts (events (copy_thread no_errors 3 three_plan three_files)))
   \<and> length (progress_counts (events (copy_thread no_errors 3 three_plan three_files))) \<le> 199
   \<and> last (progress_counts (events (copy_thread no_errors 3 three_plan three_files))) = 3
   \<and> copied_count (copy_thread no_errors 3 three_plan three_files) = 3
   \<and> last (events (copy_thread (deny ''/d/b'') 3 three_plan three_files)) \<noteq> ShowCopyComplete
   \<and> 3 \<notin> set (progress_counts (events (copy_thread (deny ''/d/b'') 3 three_plan three_files)))
   \<and> copied_count (copy_thread (deny ''/d/b'') 3 three_plan three_files) < 3"
proof -
  have p: "three_plan \<noteq> []" "3 = length three_plan"
    by (simp_all add: three_plan_def)
  have ok: "copy_files no_errors three_plan three_files =
              Inr (three_files(''/d/a'' \<mapsto> ''A'', ''/d/b'' \<mapsto> ''B'', ''/d/c'' \<mapsto> ''C''))"
    by (simp add: copy_simps)
  have ex: "\<exists>fs1. copy_files no_errors three_plan three_files = Inr fs1"
    by (intro exI) (rule ok)
  have n: "map (\<lambda>c. UpdateProgress c 3) (filter (notifies 3) [1..<Suc 3]) @ [ShowCopyComplete] =
             [UpdateProgress 1 3, UpdateProgress 2 3, UpdateProgress 3 3, ShowCopyComplete]"
    by (simp add: notifies_def upt_rec)
  have l: "last (events (copy_thread no_errors 3 three_plan three_files)) = ShowCopyComplete"
    by (simp add: copy_simps)
  have d: "last (events (copy_thread (deny ''/d/b'') 3 three_plan three_files)) \<noteq> ShowCopyComplete"
    by (simp add: copy_simps)
  note T = copy_progress_notifications[OF p, of no_errors three_files]
  note F = copy_progress_notifications[OF p, of "deny ''/d/b''" three_files]
  note T4 = T[THEN conjunct2, THEN conjunct2, THEN conjunct2, THEN conjunct1, rule_format, OF l]
  note F5 = F[THEN conjunct2, THEN conjunct2, THEN conjunct2, THEN conjunct2, THEN conjunct1,
              rule_format, OF d]
  note T6 = T[THEN conjunct2, THEN conjunct2, THEN conjunct2, THEN conjunct2, THEN conjunct2,
              rule_format, OF ex]
  show ?thesis
    by (intro conjI p ok T6[unfolded n] T[THEN conjunct1] T[THEN conjunct2, THEN conjunct1]
          T4[THEN conjunct2, THEN conjunct1] T4[THEN conjunct2, THEN conjunct2] d
          F5[THEN conjunct2, THEN conjunct1] F5[THEN conjunct2, THEN conjunct2])
qed

text \<open>
  The specification bounds the notifications by about 100 and one more. A plan of
  199 entries has the interval 1 and gives 199 notifications.
\<close>

theorem copy_progress_notifications_counterexample:
  "length long_plan = 199
   \<and> last (events (copy_thread no_errors 199 long_plan every_file)) = ShowCopyComplete
   \<and> length (progress_counts (events (copy_thread no_errors 199 long_plan every_file))) = 199"
proof -
  have l: "length long_plan = 199" by (simp add: long_plan_def)
  have "\<forall>p. every_file p \<noteq> None" by (simp add: every_file_def)
  from copy_files_no_errors[OF this, of long_plan] obtain fs1 where
    ok: "copy_files no_errors long_plan every_file = Inr fs1" by blast
  have a: "filter (notifies 199) xs = xs" for xs
    by (induction xs) (simp_all add: notifies_def)
  show ?thesis
    unfolding copy_thread_success[OF ok] l a
    by (simp add: progress_counts_map del: upt_Suc)
qed

end
